theory Spec2Isabelle
  imports Main
begin

section \<open>Formatting of integers\<close>

text \<open>
  The emitter prints integers with the verb \<^verbatim>\<open>%d\<close> of \<^verbatim>\<open>fmt.Sprintf\<close>: decimal digits, with a
  leading minus sign for a negative number.
\<close>

fun decimal :: "nat \<Rightarrow> string" where
  "decimal n =
     (if n < 10 then [''0123456789'' ! n]
      else decimal (n div 10) @ [''0123456789'' ! (n mod 10)])"

declare decimal.simps [simp del]

definition Sprintf_d :: "int \<Rightarrow> string" where
  "Sprintf_d i = (if i < 0 then CHR ''-'' # decimal (nat (- i)) else decimal (nat i))"

section \<open>The syntax tree (ast.go)\<close>

text \<open>
  The interface \<^verbatim>\<open>AST\<close> is implemented by nineteen struct types, all with value receivers, so
  an interface value holds either a struct \<^verbatim>\<open>T\<close> or a pointer \<^verbatim>\<open>*T\<close> to one. The constructors
  below are the struct types; \<open>Ptr n\<close> is an interface value whose dynamic type is the
  pointer type, pointing to a struct with the contents \<open>n\<close>. Three constructors carry a
  suffix because \<open>Not\<close>, \<open>Id\<close> and \<open>If\<close> are constants of HOL. The nil interface value is
  not modelled: the grammar never stores one in a tree. (A pointer to a pointer does not
  implement the interface; the type below has the term, and nothing is claimed of it.)
\<close>

datatype AST =
    Number int
  | Id_node string
  | Not_node AST
  | Equal AST AST
  | NotEqual AST AST
  | Add AST AST
  | Subtract AST AST
  | Multiply AST AST
  | Divide AST AST
  | Call string "AST list"
  | Return AST
  | Block "AST list"
  | If_node AST AST AST
  | While AST AST
  | Assign string AST
  | Var string AST
  | Function string "string list" AST
  | Main "AST list"
  | Assert AST
  | Ptr AST

subsection \<open>Environment and the emission sink\<close>

record Environment =
  locals :: "string \<Rightarrow> int option"
  nextLocalOffset :: int

definition NewEnvironment :: Environment where
  "NewEnvironment = \<lparr>locals = Map.empty, nextLocalOffset = 0\<rparr>"

text \<open>
  \<^verbatim>\<open>Emit\<close> prints lines through \<^verbatim>\<open>emit = fmt.Println\<close>, updates the environment it was
  handed (a pointer) and the package variable \<^verbatim>\<open>labelCounter\<close>, and may panic. An emission
  step is a function from the state (environment, label counter) to the lines printed
  and then either the panic message or the new state. The lines printed before a panic
  are kept.
\<close>

type_synonym state = "Environment \<times> int"
type_synonym emitted = "string list \<times> (string + state)"
type_synonym step = "state \<Rightarrow> emitted"

definition emit :: "string \<Rightarrow> step" where
  "emit line s = ([line], Inr s)"

definition panic :: "string \<Rightarrow> step" where
  "panic msg s = ([], Inl msg)"

text \<open>Statements of a Go function body, run in order; a panic ends the run.\<close>

fun run :: "step list \<Rightarrow> step" where
  "run [] s = ([], Inr s)"
| "run (a # rest) s =
     (case a s of
        (ls, Inl msg) \<Rightarrow> (ls, Inl msg)
      | (ls, Inr s') \<Rightarrow> (case run rest s' of (ls', r) \<Rightarrow> (ls @ ls', r)))"

text \<open>\<^verbatim>\<open>Label.String\<close>: the text \<^verbatim>\<open>.L<n>\<close> of the label numbered \<open>n\<close>.\<close>

definition Label_String :: "int \<Rightarrow> string" where
  "Label_String n = ''.L'' @ Sprintf_d n"

text \<open>
  \<^verbatim>\<open>Function.setUpEnvironment\<close>: a fresh environment; the loop assigns
  \<^verbatim>\<open>env.locals[param] = 4*i - 16\<close> for each index in order, so a later assignment to the
  same name overwrites an earlier one.
\<close>

fun bind_params :: "int \<Rightarrow> string list \<Rightarrow> (string \<Rightarrow> int option) \<Rightarrow> (string \<Rightarrow> int option)" where
  "bind_params i [] m = m"
| "bind_params i (param # rest) m = bind_params (i + 1) rest (m(param \<mapsto> 4 * i - 16))"

definition setUpEnvironment :: "string list \<Rightarrow> Environment" where
  "setUpEnvironment parameters =
     \<lparr>locals = bind_params 0 parameters Map.empty, nextLocalOffset = - 20\<rparr>"

definition emitPrologue :: step where
  "emitPrologue = run [emit ''  push {fp, lr}'', emit ''  mov fp, sp'', emit ''  push {r0, r1, r2, r3}'']"

definition emitEpilogue :: step where
  "emitEpilogue = run [emit ''  mov sp, fp'', emit ''  mov r0, #0'', emit ''  pop {fp, pc}'']"

text \<open>
  The body of a function is emitted against its own environment object; the caller's
  environment is untouched, the label counter is shared.
\<close>

definition in_environment :: "Environment \<Rightarrow> step \<Rightarrow> step" where
  "in_environment funcEnv body s =
     (case body (funcEnv, snd s) of
        (ls, Inl msg) \<Rightarrow> (ls, Inl msg)
      | (ls, Inr s') \<Rightarrow> (ls, Inr (fst s, snd s')))"

text \<open>The loop of \<^verbatim>\<open>Call.Emit\<close> for two to four arguments, from index \<open>i\<close> on.\<close>

fun store_args :: "int \<Rightarrow> step list \<Rightarrow> step list" where
  "store_args i [] = []"
| "store_args i (arg # rest) =
     arg # emit (''  str r0, [sp, #'' @ Sprintf_d (4 * i) @ '']'') # store_args (i + 1) rest"

subsection \<open>Emit\<close>

fun Emit :: "AST \<Rightarrow> step" where
  "Emit (Number n) = emit (''  ldr r0, ='' @ Sprintf_d n)"
| "Emit (Id_node name) = (\<lambda>s.
     case locals (fst s) name of
       Some offset \<Rightarrow> emit (''  ldr r0, [fp, #'' @ Sprintf_d offset @ '']'') s
     | None \<Rightarrow> panic (''Undefined variable: '' @ name) s)"
| "Emit (Not_node t) =
     run [Emit t, emit ''  cmp r0, #0'', emit ''  moveq r0, #1'', emit ''  movne r0, #0'']"
| "Emit (Equal l r) =
     run [Emit l, emit ''  push {r0, ip}'', Emit r, emit ''  pop {r1, ip}'',
          emit ''  cmp r0, r1'', emit ''  moveq r0, #1'', emit ''  movne r0, #0'']"
| "Emit (NotEqual l r) =
     run [Emit l, emit ''  push {r0, ip}'', Emit r, emit ''  pop {r1, ip}'',
          emit ''  cmp r0, r1'', emit ''  movne r0, #1'', emit ''  moveq r0, #0'']"
| "Emit (Add l r) =
     run [Emit l, emit ''  push {r0, ip}'', Emit r, emit ''  pop {r1, ip}'',
          emit ''  add r0, r1, r0'']"
| "Emit (Subtract l r) =
     run [Emit l, emit ''  push {r0, ip}'', Emit r, emit ''  pop {r1, ip}'',
          emit ''  sub r0, r1, r0'']"
| "Emit (Multiply l r) =
     run [Emit l, emit ''  push {r0, ip}'', Emit r, emit ''  pop {r1, ip}'',
          emit ''  mul r0, r1, r0'']"
| "Emit (Divide l r) =
     run [Emit l, emit ''  push {r0, ip}'', Emit r, emit ''  pop {r1, ip}'',
          emit ''  udiv r0, r1, r0'']"
| "Emit (Call callee args) =
     (if length args = 0 then emit (''  bl '' @ callee)
      else if length args = 1 then run (map Emit args @ [emit (''  bl '' @ callee)])
      else if length args \<ge> 2 \<and> length args \<le> 4 then
        run ([emit ''  sub sp, sp, #16''] @ store_args 0 (map Emit args) @
             [emit ''  pop {r0, r1, r2, r3}'', emit (''  bl '' @ callee)])
      else panic ''More than 4 arguments are not supported'')"
| "Emit (Return t) = run [Emit t, emit ''  mov sp, fp'', emit ''  pop {fp, pc}'']"
| "Emit (Block statements) = run (map Emit statements)"
| "Emit (If_node conditional consequence alternative) = (\<lambda>s.
     let ifFalseLabel = Label_String (snd s); endIfLabel = Label_String (snd s + 1) in
     run [Emit conditional, emit ''  cmp r0, #0'', emit (''  beq '' @ ifFalseLabel),
          Emit consequence, emit (''  b '' @ endIfLabel), emit (ifFalseLabel @ '':''),
          Emit alternative, emit (endIfLabel @ '':'')] (fst s, snd s + 2))"
| "Emit (While conditional body) = (\<lambda>s.
     let loopStart = Label_String (snd s); loopEnd = Label_String (snd s + 1) in
     run [emit (loopStart @ '':''), Emit conditional, emit ''  cmp r0, #0'',
          emit (''  beq '' @ loopEnd), Emit body, emit (''  b '' @ loopStart),
          emit (loopEnd @ '':'')] (fst s, snd s + 2))"
| "Emit (Assign name v) =
     run [Emit v, (\<lambda>s.
       case locals (fst s) name of
         Some offset \<Rightarrow> emit (''  str r0, [fp, #'' @ Sprintf_d offset @ '']'') s
       | None \<Rightarrow> panic (''Undefined variable: '' @ name) s)]"
| "Emit (Var name v) =
     run [Emit v, emit ''  push {r0, ip}'', (\<lambda>s.
       ([], Inr ((fst s)\<lparr>locals := (locals (fst s))(name \<mapsto> nextLocalOffset (fst s) - 4),
                          nextLocalOffset := nextLocalOffset (fst s) - 8\<rparr>, snd s)))]"
| "Emit (Function name parameters body) =
     (if length parameters > 4 then panic ''More than 4 params is not supported''
      else run [emit '''', emit (''.global '' @ name), emit (name @ '':''), emitPrologue,
                in_environment (setUpEnvironment parameters) (Emit body), emitEpilogue])"
| "Emit (Main statements) =
     run ([emit ''.global main'', emit ''main:'', emit ''  push {fp, lr}''] @
          map Emit statements @ [emit ''  mov r0, #0'', emit ''  pop {fp, pc}''])"
| "Emit (Assert condition) =
     run [Emit condition, emit ''  cmp r0, #1'', emit (''  moveq r0, #'' @ [CHR 0x27, CHR ''.'', CHR 0x27]),
          emit (''  movne r0, #'' @ [CHR 0x27, CHR ''F'', CHR 0x27]), emit ''  bl putchar'']"
| "Emit (Ptr n) = Emit n"

subsection \<open>Equals\<close>

text \<open>
  Every \<^verbatim>\<open>Equals\<close> method starts with a type assertion to the pointer type of its own node
  (\<^verbatim>\<open>other.(*Number)\<close>, \<^verbatim>\<open>other.(*Add)\<close>, ...), which holds only when the dynamic type of
  \<^verbatim>\<open>other\<close> is that pointer type. The loops over arguments and statements return false at
  the first pair that differs; they run after the lengths were found equal. A method
  called through a pointer runs on the struct pointed to.
\<close>

fun Equals :: "AST \<Rightarrow> AST \<Rightarrow> bool"
  and Equals_each :: "AST list \<Rightarrow> AST list \<Rightarrow> bool" where
  "Equals (Number v) other = (case other of Ptr (Number v') \<Rightarrow> v = v' | _ \<Rightarrow> False)"
| "Equals (Id_node v) other = (case other of Ptr (Id_node v') \<Rightarrow> v = v' | _ \<Rightarrow> False)"
| "Equals (Not_node t) other = (case other of Ptr (Not_node t') \<Rightarrow> Equals t t' | _ \<Rightarrow> False)"
| "Equals (Equal l r) other =
     (case other of Ptr (Equal l' r') \<Rightarrow> Equals l l' \<and> Equals r r' | _ \<Rightarrow> False)"
| "Equals (NotEqual l r) other =
     (case other of Ptr (NotEqual l' r') \<Rightarrow> Equals l l' \<and> Equals r r' | _ \<Rightarrow> False)"
| "Equals (Add l r) other =
     (case other of Ptr (Add l' r') \<Rightarrow> Equals l l' \<and> Equals r r' | _ \<Rightarrow> False)"
| "Equals (Subtract l r) other =
     (case other of Ptr (Subtract l' r') \<Rightarrow> Equals l l' \<and> Equals r r' | _ \<Rightarrow> False)"
| "Equals (Multiply l r) other =
     (case other of Ptr (Multiply l' r') \<Rightarrow> Equals l l' \<and> Equals r r' | _ \<Rightarrow> False)"
| "Equals (Divide l r) other =
     (case other of Ptr (Divide l' r') \<Rightarrow> Equals l l' \<and> Equals r r' | _ \<Rightarrow> False)"
| "Equals (Call callee args) other =
     (case other of
        Ptr (Call callee' args') \<Rightarrow>
          if callee \<noteq> callee' \<or> length args \<noteq> length args' then False
          else Equals_each args args'
      | _ \<Rightarrow> False)"
| "Equals (Return t) other = (case other of Ptr (Return t') \<Rightarrow> Equals t t' | _ \<Rightarrow> False)"
| "Equals (Block statements) other =
     (case other of
        Ptr (Block statements') \<Rightarrow>
          if length statements \<noteq> length statements' then False
          else Equals_each statements statements'
      | _ \<Rightarrow> False)"
| "Equals (If_node c t e) other =
     (case other of
        Ptr (If_node c' t' e') \<Rightarrow> Equals c c' \<and> Equals t t' \<and> Equals e e'
      | _ \<Rightarrow> False)"
| "Equals (While c b) other =
     (case other of Ptr (While c' b') \<Rightarrow> Equals c c' \<and> Equals b b' | _ \<Rightarrow> False)"
| "Equals (Assign name v) other =
     (case other of Ptr (Assign name' v') \<Rightarrow> name = name' \<and> Equals v v' | _ \<Rightarrow> False)"
| "Equals (Var name v) other =
     (case other of Ptr (Var name' v') \<Rightarrow> name = name' \<and> Equals v v' | _ \<Rightarrow> False)"
| "Equals (Function name parameters body) other =
     (case other of
        Ptr (Function name' parameters' body') \<Rightarrow>
          if name \<noteq> name' \<or> length parameters \<noteq> length parameters' then False
          else if parameters \<noteq> parameters' then False
          else Equals body body'
      | _ \<Rightarrow> False)"
| "Equals (Main statements) other =
     (case other of
        Ptr (Main statements') \<Rightarrow>
          if length statements \<noteq> length statements' then False
          else Equals_each statements statements'
      | _ \<Rightarrow> False)"
| "Equals (Assert c) other = (case other of Ptr (Assert c') \<Rightarrow> Equals c c' | _ \<Rightarrow> False)"
| "Equals (Ptr n) other = Equals n other"
| "Equals_each [] others = True"
| "Equals_each (a # rest) others =
     (case others of
        [] \<Rightarrow> False
      | b # others' \<Rightarrow> if \<not> Equals a b then False else Equals_each rest others')"

section \<open>Cursor and primitive match\<close>

record Source =
  str :: string
  index :: int

definition NewSource :: "string \<Rightarrow> int \<Rightarrow> Source" where
  "NewSource s i = \<lparr>str = s, index = i\<rparr>"

text \<open>
  A call of a \<^verbatim>\<open>Parse\<close> function returns nil (\<open>Failure\<close>), returns a result (\<open>Success\<close> with the
  value and the next cursor), panics (\<open>Panicked\<close> with the message of the panic value) or
  does not return (\<open>Diverged\<close>).
\<close>

datatype 'a ParseResult = Failure | Success 'a Source | Panicked string | Diverged

subsection \<open>Regular expressions\<close>

text \<open>
  The package \<^verbatim>\<open>regexp\<close> is not part of the repository. The grammar uses a fragment of its
  syntax only: a pattern is a sequence of items, each a character class (once, or
  repeated with \<^verbatim>\<open>+\<close>, with \<^verbatim>\<open>*\<close>, or with the non-greedy \<^verbatim>\<open>*?\<close>; a single character is
  a class of its own) or the ASCII word boundary
  \<^verbatim>\<open>\b\<close>. \<open>Dot\<close> is the dot without the flag \<^verbatim>\<open>s\<close> (any character but the newline), \<open>DotAll\<close>
  the dot under \<^verbatim>\<open>(?s)\<close>. \<open>match_here\<close> is the match anchored at the start of its input
  (\<^verbatim>\<open>Match\<close> always puts \<^verbatim>\<open>^\<close> in front of the pattern) with the preference order of
  \<^verbatim>\<open>regexp\<close> (leftmost-first: a greedy repetition tries the longest run first, a non-greedy
  one the shortest); it returns the length of the match in bytes.
\<close>

datatype charclass = Single char | Ranges "(char \<times> char) list" | Dot | DotAll

fun in_class :: "charclass \<Rightarrow> char \<Rightarrow> bool" where
  "in_class (Single c) x = (x = c)"
| "in_class (Ranges rs) x =
     list_ex (\<lambda>(lo, hi). (of_char lo :: nat) \<le> of_char x \<and> (of_char x :: nat) \<le> of_char hi) rs"
| "in_class Dot x = (x \<noteq> CHR 0x0A)"
| "in_class DotAll x = True"

datatype item = Once charclass | AtLeastOnce charclass | ZeroOrMore charclass | ZeroOrMoreLazy charclass | WordBoundary

type_synonym pattern = "item list"

definition word_class :: charclass where
  "word_class = Ranges [(CHR ''0'', CHR ''9''), (CHR ''A'', CHR ''Z''), (CHR ''a'', CHR ''z''),
                        (CHR ''_'', CHR ''_'')]"

definition is_word :: "char option \<Rightarrow> bool" where
  "is_word c = (case c of None \<Rightarrow> False | Some x \<Rightarrow> in_class word_class x)"

fun match_here :: "pattern \<Rightarrow> char option \<Rightarrow> string \<Rightarrow> nat option" where
  "match_here [] prev s = Some 0"
| "match_here (Once c # rest) prev [] = None"
| "match_here (Once c # rest) prev (x # xs) =
     (if in_class c x then map_option Suc (match_here rest (Some x) xs) else None)"
| "match_here (AtLeastOnce c # rest) prev [] = None"
| "match_here (AtLeastOnce c # rest) prev (x # xs) =
     (if in_class c x then map_option Suc (match_here (ZeroOrMore c # rest) (Some x) xs) else None)"
| "match_here (ZeroOrMore c # rest) prev [] = match_here rest prev []"
| "match_here (ZeroOrMore c # rest) prev (x # xs) =
     (if in_class c x then
        (case match_here (ZeroOrMore c # rest) (Some x) xs of
           Some n \<Rightarrow> Some (Suc n)
         | None \<Rightarrow> match_here rest prev (x # xs))
      else match_here rest prev (x # xs))"
| "match_here (ZeroOrMoreLazy c # rest) prev [] = match_here rest prev []"
| "match_here (ZeroOrMoreLazy c # rest) prev (x # xs) =
     (case match_here rest prev (x # xs) of
        Some n \<Rightarrow> Some n
      | None \<Rightarrow>
          if in_class c x then map_option Suc (match_here (ZeroOrMoreLazy c # rest) (Some x) xs)
          else None)"
| "match_here (WordBoundary # rest) prev s =
     (if is_word prev \<noteq> is_word (case s of [] \<Rightarrow> None | x # _ \<Rightarrow> Some x)
      then match_here rest prev s else None)"

text \<open>A run of literal characters.\<close>

definition literal :: "string \<Rightarrow> pattern" where
  "literal cs = map (\<lambda>c. Once (Single c)) cs"

subsection \<open>Source.Match\<close>

text \<open>
  At or past the end of the text the match fails before anything else is looked at.
  The slice \<^verbatim>\<open>s.str[s.index:]\<close> panics for a negative index. The patterns of the model are
  well-formed, so the panic on a pattern that does not compile has no branch here.
\<close>

definition Match :: "pattern \<Rightarrow> Source \<Rightarrow> string ParseResult" where
  "Match pattern s =
     (if index s \<ge> int (length (str s)) then Failure
      else if index s < 0 then
        Panicked (''runtime error: slice bounds out of range ['' @ Sprintf_d (index s) @ '':]'')
      else
        (case match_here pattern None (drop (nat (index s)) (str s)) of
           None \<Rightarrow> Failure
         | Some n \<Rightarrow>
             Success (take n (drop (nat (index s)) (str s)))
                     (NewSource (str s) (index s + int n))))"

section \<open>The parser combinators\<close>

text \<open>
  A \<^verbatim>\<open>Parser[T]\<close> is a struct with one field, the function \<^verbatim>\<open>Parse\<close>, which is nil in the zero
  value of the struct: \<open>None\<close> here. Calling a nil function is a run-time panic.
\<close>

type_synonym 'a Parser = "(Source \<Rightarrow> 'a ParseResult) option"

definition Parse :: "'a Parser \<Rightarrow> Source \<Rightarrow> 'a ParseResult" where
  "Parse p source =
     (case p of
        None \<Rightarrow> Panicked ''runtime error: invalid memory address or nil pointer dereference''
      | Some f \<Rightarrow> f source)"

definition Regexp :: "pattern \<Rightarrow> string Parser" where
  "Regexp pattern = Some (Match pattern)"

definition Constant :: "'a \<Rightarrow> 'a Parser" where
  "Constant v = Some (Success v)"

definition Error :: "string \<Rightarrow> 'a Parser" where
  "Error message = Some (\<lambda>source. Panicked message)"

fun Or_Parse :: "'a Parser list \<Rightarrow> Source \<Rightarrow> 'a ParseResult" where
  "Or_Parse [] source = Failure"
| "Or_Parse (parser # rest) source =
     (case parser of
        None \<Rightarrow> Or_Parse rest source
      | Some f \<Rightarrow> (case f source of Failure \<Rightarrow> Or_Parse rest source | result \<Rightarrow> result))"

definition Or :: "'a Parser list \<Rightarrow> 'a Parser" where
  "Or parsers = Some (Or_Parse parsers)"

text \<open>
  The loop of \<^verbatim>\<open>Many\<close> has no bound: it ends when the parser fails (or panics). Not
  returning is the value \<open>None\<close> of the loop.
\<close>

partial_function (option) Many_loop ::
  "(Source \<Rightarrow> 'a ParseResult) \<Rightarrow> 'a list \<Rightarrow> Source \<Rightarrow> 'a list ParseResult option" where
  "Many_loop f results currentSource =
     (case f currentSource of
        Failure \<Rightarrow> Some (Success results currentSource)
      | Success v next_source \<Rightarrow> Many_loop f (results @ [v]) next_source
      | Panicked msg \<Rightarrow> Some (Panicked msg)
      | Diverged \<Rightarrow> None)"

declare Many_loop.simps [code]

definition Many_Parse :: "'a Parser \<Rightarrow> Source \<Rightarrow> 'a list ParseResult" where
  "Many_Parse parser source =
     (case parser of
        None \<Rightarrow> Success [] source
      | Some f \<Rightarrow> (case Many_loop f [] source of None \<Rightarrow> Diverged | Some result \<Rightarrow> result))"

definition Many :: "'a Parser \<Rightarrow> 'a list Parser" where
  "Many parser = Some (Many_Parse parser)"

definition Bind_Parse :: "'a Parser \<Rightarrow> ('a \<Rightarrow> 'b Parser) \<Rightarrow> Source \<Rightarrow> 'b ParseResult" where
  "Bind_Parse parser callback source =
     (case Parse parser source of
        Failure \<Rightarrow> Failure
      | Success v next_source \<Rightarrow>
          (case callback v of None \<Rightarrow> Failure | Some g \<Rightarrow> g next_source)
      | Panicked msg \<Rightarrow> Panicked msg
      | Diverged \<Rightarrow> Diverged)"

definition Bind :: "'a Parser \<Rightarrow> ('a \<Rightarrow> 'b Parser) \<Rightarrow> 'b Parser" where
  "Bind parser callback = Some (Bind_Parse parser callback)"

definition And :: "'a Parser \<Rightarrow> 'b Parser \<Rightarrow> 'b Parser" where
  "And parser1 parser2 = Bind parser1 (\<lambda>_. parser2)"

definition Map :: "'a Parser \<Rightarrow> ('a \<Rightarrow> 'b) \<Rightarrow> 'b Parser" where
  "Map parser callback = Bind parser (\<lambda>v. Constant (callback v))"

text \<open>The value of \<^verbatim>\<open>Maybe\<close> is a pointer: nil (\<open>None\<close>) or the address of the value parsed.\<close>

definition Maybe_Parse :: "'a Parser \<Rightarrow> Source \<Rightarrow> 'a option ParseResult" where
  "Maybe_Parse parser source =
     (case parser of
        None \<Rightarrow> Success None source
      | Some f \<Rightarrow>
          (case f source of
             Failure \<Rightarrow> Success None source
           | Success v next_source \<Rightarrow> Success (Some v) next_source
           | Panicked msg \<Rightarrow> Panicked msg
           | Diverged \<Rightarrow> Diverged))"

definition Maybe :: "'a Parser \<Rightarrow> 'a option Parser" where
  "Maybe parser = Some (Maybe_Parse parser)"

text \<open>
  \<^verbatim>\<open>ParseStringToCompletion\<close> returns the value, panics, or does not return when the parser
  does not. The slice \<^verbatim>\<open>str[index:]\<close> inside the message of the last panic is itself a
  run-time panic when the index is negative or beyond the length.
\<close>

datatype 'a outcome = Returned 'a | Panic string | NoReturn

definition ParseStringToCompletion :: "'a Parser \<Rightarrow> string \<Rightarrow> 'a outcome" where
  "ParseStringToCompletion p s =
     (case p of
        None \<Rightarrow> Panic ''Parse error: parser has nil Parse function''
      | Some f \<Rightarrow>
          (case f (NewSource s 0) of
             Failure \<Rightarrow> Panic ''Parse error: could not parse anything at all''
           | Success v source \<Rightarrow>
               if index source \<noteq> int (length (str source)) then
                 (if index source < 0 then
                    Panic (''runtime error: slice bounds out of range ['' @
                           Sprintf_d (index source) @ '':]'')
                  else if index source > int (length (str source)) then
                    Panic (''runtime error: slice bounds out of range ['' @
                           Sprintf_d (index source) @ '':'' @
                           Sprintf_d (int (length (str source))) @ '']'')
                  else
                    Panic (''Parse error at index '' @ Sprintf_d (index source) @
                           '', remaining: '' @ drop (nat (index source)) (str source)))
               else Returned v
           | Panicked msg \<Rightarrow> Panic msg
           | Diverged \<Rightarrow> NoReturn))"

section \<open>The grammar (parser.go)\<close>

subsection \<open>Tokens\<close>

text \<open>
  The patterns, in the order of the source: blanks \<^verbatim>\<open>[ \n\r\t]+\<close>; a line comment, two
  slashes and \<^verbatim>\<open>.*\<close>; a block comment under \<^verbatim>\<open>(?s)\<close>, slash and star, a non-greedy run of any
  characters, star and slash.
\<close>

definition whitespace :: "string Parser" where
  "whitespace = Regexp [AtLeastOnce (Ranges [(CHR '' '', CHR '' ''), (CHR 0x0A, CHR 0x0A),
                                      (CHR 0x0D, CHR 0x0D), (CHR 0x09, CHR 0x09)])]"

definition comments :: "string Parser" where
  "comments = Or [Regexp (literal ''//'' @ [ZeroOrMore Dot]),
                  Regexp (literal ''/*'' @ [ZeroOrMoreLazy DotAll] @ literal ''*/'')]"

definition ignored :: "string list Parser" where
  "ignored = Many (Or [whitespace, comments])"

definition token :: "pattern \<Rightarrow> string Parser" where
  "token pattern = Bind (Regexp pattern) (\<lambda>v. And ignored (Constant v))"

definition FUNCTION :: "string Parser" where
  "FUNCTION = token (literal ''function'' @ [WordBoundary])"

definition IF :: "string Parser" where
  "IF = token (literal ''if'' @ [WordBoundary])"

definition WHILE :: "string Parser" where
  "WHILE = token (literal ''while'' @ [WordBoundary])"

definition ELSE :: "string Parser" where
  "ELSE = token (literal ''else'' @ [WordBoundary])"

definition RETURN :: "string Parser" where
  "RETURN = token (literal ''return'' @ [WordBoundary])"

definition VAR :: "string Parser" where
  "VAR = token (literal ''var'' @ [WordBoundary])"

definition COMMA :: "string Parser" where
  "COMMA = token (literal '','')"

definition SEMICOLON :: "string Parser" where
  "SEMICOLON = token (literal '';'')"

definition LEFT_PAREN :: "string Parser" where
  "LEFT_PAREN = token (literal ''('')"

definition RIGHT_PAREN :: "string Parser" where
  "RIGHT_PAREN = token (literal '')'')"

definition LEFT_BRACE :: "string Parser" where
  "LEFT_BRACE = token (literal ''{'')"

definition RIGHT_BRACE :: "string Parser" where
  "RIGHT_BRACE = token (literal ''}'')"

text \<open>
  \<^verbatim>\<open>strconv.Atoi\<close> on a run of decimal digits; its error is dropped by the source, and on a
  number beyond the range of \<^verbatim>\<open>int\<close> (64 bits) the value it returns with the error is the
  largest \<^verbatim>\<open>int\<close>.
\<close>

definition Atoi :: "string \<Rightarrow> int" where
  "Atoi digits = min (foldl (\<lambda>n c. 10 * n + (int (of_char c) - 48)) 0 digits) (2 ^ 63 - 1)"

definition NUMBER :: "AST Parser" where
  "NUMBER = Map (token [AtLeastOnce (Ranges [(CHR ''0'', CHR ''9'')])]) (\<lambda>digits. Number (Atoi digits))"

definition ID :: "string Parser" where
  "ID = token [Once (Ranges [(CHR ''a'', CHR ''z''), (CHR ''A'', CHR ''Z''), (CHR ''_'', CHR ''_'')]),
               ZeroOrMore (Ranges [(CHR ''a'', CHR ''z''), (CHR ''A'', CHR ''Z''), (CHR ''0'', CHR ''9''),
                             (CHR ''_'', CHR ''_'')])]"

definition idParser :: "AST Parser" where
  "idParser = Map ID (\<lambda>x. Id_node x)"

subsection \<open>Operators\<close>

text \<open>
  The value of \<open>NOT\<close> in the source is the node \<^verbatim>\<open>Not{}\<close>, whose term is nil; \<^verbatim>\<open>unary\<close> only
  asks whether it is there and drops it, so its value here is the unit.
\<close>

definition NOT :: "unit Parser" where
  "NOT = Map (token (literal ''!'')) (\<lambda>_. ())"

definition EQUAL :: "(AST \<Rightarrow> AST \<Rightarrow> AST) Parser" where
  "EQUAL = Map (token (literal ''=='')) (\<lambda>_. (\<lambda>l r. Equal l r))"

definition NOT_EQUAL :: "(AST \<Rightarrow> AST \<Rightarrow> AST) Parser" where
  "NOT_EQUAL = Map (token (literal ''!='')) (\<lambda>_. (\<lambda>l r. NotEqual l r))"

definition PLUS :: "(AST \<Rightarrow> AST \<Rightarrow> AST) Parser" where
  "PLUS = Map (token (literal ''+'')) (\<lambda>_. (\<lambda>l r. Add l r))"

definition MINUS :: "(AST \<Rightarrow> AST \<Rightarrow> AST) Parser" where
  "MINUS = Map (token (literal ''-'')) (\<lambda>_. (\<lambda>l r. Subtract l r))"

definition STAR :: "(AST \<Rightarrow> AST \<Rightarrow> AST) Parser" where
  "STAR = Map (token (literal ''*'')) (\<lambda>_. (\<lambda>l r. Multiply l r))"

definition SLASH :: "(AST \<Rightarrow> AST \<Rightarrow> AST) Parser" where
  "SLASH = Map (token (literal ''/'')) (\<lambda>_. (\<lambda>l r. Divide l r))"

definition ASSIGN_OP :: "(string \<Rightarrow> AST \<Rightarrow> AST) Parser" where
  "ASSIGN_OP = Map (token (literal ''='')) (\<lambda>_. (\<lambda>name v. Assign name v))"

subsection \<open>Expressions\<close>

text \<open>
  The local parsers of \<^verbatim>\<open>getComparisonParser\<close>, each as a function of the package variable
  \<^verbatim>\<open>expression\<close> it reads. In \<open>call\<close> the source evaluates \<^verbatim>\<open>args[0]\<close> inside the callback,
  which \<^verbatim>\<open>Bind\<close> calls just before it runs the parser returned: with no argument the index
  is out of range and the panic leaves that same call of \<^verbatim>\<open>Parse\<close>, as it does from the
  panicking parser returned here.
\<close>

definition infix_parser :: "(AST \<Rightarrow> AST \<Rightarrow> AST) Parser \<Rightarrow> AST Parser \<Rightarrow> AST Parser" where
  "infix_parser operatOr termParser =
     Bind termParser (\<lambda>left.
       Bind (Many (Bind operatOr (\<lambda>op.
               Bind termParser (\<lambda>right. Constant (\<lambda>current. op current right)))))
         (\<lambda>ops. Constant (foldl (\<lambda>result op. op result) left ops)))"

definition args :: "AST Parser \<Rightarrow> AST list Parser" where
  "args expression =
     Or [Bind expression (\<lambda>arg.
           Bind (Many (And COMMA expression)) (\<lambda>more. Constant ([arg] @ more))),
         Constant []]"

definition call :: "AST Parser \<Rightarrow> AST Parser" where
  "call expression =
     Bind ID (\<lambda>callee.
       And LEFT_PAREN (Bind (args expression) (\<lambda>arguments.
         if callee = ''__assert'' then
           (case arguments of
              [] \<Rightarrow> Some (\<lambda>source. Panicked ''runtime error: index out of range [0] with length 0'')
            | arg0 # _ \<Rightarrow> And RIGHT_PAREN (Constant (Assert arg0)))
         else And RIGHT_PAREN (Constant (Call callee arguments)))))"

definition atom :: "AST Parser \<Rightarrow> AST Parser" where
  "atom expression =
     Or [call expression, idParser, NUMBER,
         Bind (And LEFT_PAREN expression) (\<lambda>e. And RIGHT_PAREN (Constant e))]"

definition unary :: "AST Parser \<Rightarrow> AST Parser" where
  "unary expression =
     Bind (Maybe NOT) (\<lambda>not.
       Map (atom expression) (\<lambda>term. if not \<noteq> None then Not_node term else term))"

definition product_parser :: "AST Parser \<Rightarrow> AST Parser" where
  "product_parser expression = infix_parser (Or [STAR, SLASH]) (unary expression)"

definition sum_parser :: "AST Parser \<Rightarrow> AST Parser" where
  "sum_parser expression = infix_parser (Or [PLUS, MINUS]) (product_parser expression)"

definition getComparisonParser :: "AST Parser \<Rightarrow> AST Parser" where
  "getComparisonParser expression = infix_parser (Or [EQUAL, NOT_EQUAL]) (sum_parser expression)"

text \<open>
  \<^verbatim>\<open>expression\<close> is the function literal that calls \<^verbatim>\<open>getComparisonParser().Parse(source)\<close>,
  and the parsers built there call \<^verbatim>\<open>expression\<close> again: a recursion through the package
  variable. \<open>expression_at depth\<close> is that function with the nesting of calls cut at
  \<open>depth\<close>. Every nested call happens after at least one character was consumed, so a
  depth of one more than the number of characters left is never reached
  (\<open>expression_unfold\<close> below), and \<open>expression\<close> is \<open>expression_at\<close> with that depth.
\<close>

definition remaining :: "Source \<Rightarrow> nat" where
  "remaining source = nat (int (length (str source)) - index source)"

fun expression_at :: "nat \<Rightarrow> Source \<Rightarrow> AST ParseResult" where
  "expression_at 0 source = Diverged"
| "expression_at (Suc depth) source =
     Parse (getComparisonParser (Some (expression_at depth))) source"

definition expression :: "AST Parser" where
  "expression = Some (\<lambda>source. expression_at (Suc (remaining source)) source)"

subsection \<open>Statements\<close>

definition parameters :: "string list Parser" where
  "parameters =
     Or [Bind ID (\<lambda>param.
           Bind (Many (And COMMA ID)) (\<lambda>params. Constant ([param] @ params))),
         Constant []]"

text \<open>
  The local parsers of \<^verbatim>\<open>getStatementParser\<close>; those that read the package variable
  \<^verbatim>\<open>statement\<close> are functions of it.
\<close>

definition returnStatement :: "AST Parser" where
  "returnStatement =
     Bind (And RETURN expression) (\<lambda>term. And SEMICOLON (Constant (Return term)))"

definition expressionStatement :: "AST Parser" where
  "expressionStatement = Bind expression (\<lambda>term. And SEMICOLON (Constant term))"

definition ifStatement :: "AST Parser \<Rightarrow> AST Parser" where
  "ifStatement statement =
     Bind (And (And IF LEFT_PAREN) expression) (\<lambda>conditional.
       Bind (And RIGHT_PAREN statement) (\<lambda>consequence.
         Bind (And ELSE statement) (\<lambda>alternative.
           Constant (If_node conditional consequence alternative))))"

definition whileStatement :: "AST Parser \<Rightarrow> AST Parser" where
  "whileStatement statement =
     Bind (And (And WHILE LEFT_PAREN) expression) (\<lambda>conditional.
       Bind (And RIGHT_PAREN statement) (\<lambda>body. Constant (While conditional body)))"

definition varStatement :: "AST Parser" where
  "varStatement =
     Bind (And VAR ID) (\<lambda>name.
       Bind (And ASSIGN_OP expression) (\<lambda>v. And SEMICOLON (Constant (Var name v))))"

definition assignmentStatement :: "AST Parser" where
  "assignmentStatement =
     Bind ID (\<lambda>name.
       Bind (And ASSIGN_OP expression) (\<lambda>v. And SEMICOLON (Constant (Assign name v))))"

definition blockStatement :: "AST Parser \<Rightarrow> AST Parser" where
  "blockStatement statement =
     Bind (And LEFT_BRACE (Many statement)) (\<lambda>statements.
       And RIGHT_BRACE (Constant (Block statements)))"

text \<open>
  The callback at the end of \<^verbatim>\<open>functionStatement\<close>: for the name \<^verbatim>\<open>__main\<close> and a body
  whose dynamic type is \<^verbatim>\<open>Block\<close>, the conversion \<^verbatim>\<open>Main(blockStmt)\<close> keeps the statements;
  the parameters are not used on that path.
\<close>

definition function_node :: "string \<Rightarrow> string list \<Rightarrow> AST \<Rightarrow> AST" where
  "function_node name params block =
     (if name = ''__main'' then
        (case block of
           Block statements \<Rightarrow> Main statements
         | _ \<Rightarrow> Function name params block)
      else Function name params block)"

definition functionStatement :: "AST Parser \<Rightarrow> AST Parser" where
  "functionStatement statement =
     Bind (And FUNCTION ID) (\<lambda>name.
       Bind (And LEFT_PAREN parameters) (\<lambda>params.
         Bind (And RIGHT_PAREN (blockStatement statement)) (\<lambda>block.
           Constant (function_node name params block))))"

definition getStatementParser :: "AST Parser \<Rightarrow> AST Parser" where
  "getStatementParser statement =
     Or [returnStatement, functionStatement statement, ifStatement statement,
         whileStatement statement, varStatement, assignmentStatement,
         blockStatement statement, expressionStatement]"

fun statement_at :: "nat \<Rightarrow> Source \<Rightarrow> AST ParseResult" where
  "statement_at 0 source = Diverged"
| "statement_at (Suc depth) source =
     Parse (getStatementParser (Some (statement_at depth))) source"

definition statement :: "AST Parser" where
  "statement = Some (\<lambda>source. statement_at (Suc (remaining source)) source)"

definition parser :: "AST Parser" where
  "parser = Map (And ignored (Many statement)) (\<lambda>statements. Block statements)"

subsection \<open>The driver\<close>

text \<open>
  \<^verbatim>\<open>main\<close> parses its source text to completion and emits the tree against a new
  environment, the label counter at 0. \<open>compile\<close> is that pipeline on any source text: the
  lines emitted, and how the run ended. The two lines \<^verbatim>\<open>main\<close> prints about its own progress
  (after the parse and at the end) are not part of the lines emitted.
\<close>

definition compile :: "string \<Rightarrow> string list \<times> unit outcome" where
  "compile source =
     (case ParseStringToCompletion parser source of
        Returned result \<Rightarrow>
          (case Emit result (NewEnvironment, 0) of
             (ls, Inl msg) \<Rightarrow> (ls, Panic msg)
           | (ls, Inr _) \<Rightarrow> (ls, Returned ()))
      | Panic msg \<Rightarrow> ([], Panic msg)
      | NoReturn \<Rightarrow> ([], NoReturn))"

section \<open>Cursor invariants\<close>

text \<open>
  A cursor is inside its text when \<open>0 \<le> index \<le> |text|\<close>. A cursor follows another when it
  is over the same text, not before it and not past the end. A parser advances when
  every success from a cursor inside its text returns a cursor that follows it.
\<close>

definition in_text :: "Source \<Rightarrow> bool" where
  "in_text source = (0 \<le> index source \<and> index source \<le> int (length (str source)))"

definition follows :: "Source \<Rightarrow> Source \<Rightarrow> bool" where
  "follows source next_source =
     (str next_source = str source \<and> index source \<le> index next_source \<and>
      index next_source \<le> int (length (str source)))"

definition advances :: "'a Parser \<Rightarrow> bool" where
  "advances p =
     (\<forall>source v next_source.
        in_text source \<and> Parse p source = Success v next_source \<longrightarrow>
        str next_source = str source \<and> index source \<le> index next_source \<and>
        index next_source \<le> int (length (str source)))"

text \<open>
  The words of the specification for \<^verbatim>\<open>many\<close>: apply the parser again and again, stop at its
  first failure, return the values in order and the cursor after the last success (the
  cursor given when the parser fails at once). \<open>collects p source vs final\<close> holds when
  such a run of \<open>p\<close> from \<open>source\<close> exists.
\<close>

inductive collects :: "'a Parser \<Rightarrow> Source \<Rightarrow> 'a list \<Rightarrow> Source \<Rightarrow> bool" for p where
  stop: "Parse p source = Failure \<Longrightarrow> collects p source [] source"
| step: "Parse p source = Success v next_source \<Longrightarrow> collects p next_source vs final \<Longrightarrow>
         collects p source (v # vs) final"

code_pred collects .

text \<open>A pattern that starts with a character class, once or with \<^verbatim>\<open>+\<close>, matches no empty text.\<close>

fun consuming :: "pattern \<Rightarrow> bool" where
  "consuming (Once c # rest) = True"
| "consuming (AtLeastOnce c # rest) = True"
| "consuming pat = False"

text \<open>
  Measures for the recursion of the grammar: a parser shrinks when no success leaves more
  characters than it found, it consumes when every success leaves fewer; two parsers
  agree below \<open>k\<close> when they return the same from every cursor with fewer than \<open>k\<close>
  characters left (and are both nil or both not).
\<close>

definition shrinks :: "'a Parser \<Rightarrow> bool" where
  "shrinks p = (\<forall>source v next_source.
     Parse p source = Success v next_source \<longrightarrow> remaining next_source \<le> remaining source)"

definition consumes :: "'a Parser \<Rightarrow> bool" where
  "consumes p = (\<forall>source v next_source.
     Parse p source = Success v next_source \<longrightarrow> remaining next_source < remaining source)"

definition agree_below :: "nat \<Rightarrow> 'a Parser \<Rightarrow> 'a Parser \<Rightarrow> bool" where
  "agree_below k p q =
     ((p = None \<longleftrightarrow> q = None) \<and>
      (\<forall>source. remaining source < k \<longrightarrow> Parse p source = Parse q source))"

text \<open>Collections of the closure rules of \<open>advances\<close> and of \<open>shrinks\<close>.\<close>

named_theorems advances_intros

named_theorems shrinks_intros

section \<open>The environment along an emission\<close>

text \<open>
  \<open>Var\<close> is the only node whose \<^verbatim>\<open>Emit\<close> writes to the environment it is handed
  (\<open>Function\<close> emits its body against an environment of its own). \<open>declared t\<close> lists the
  names of the \<open>Var\<close> nodes of \<open>t\<close> in the order \<^verbatim>\<open>Emit\<close> reaches their update: operands and
  statements from left to right, the right-hand side of a \<open>Var\<close> before its own name,
  nothing from inside a \<open>Function\<close>.
\<close>

fun declared :: "AST \<Rightarrow> string list" where
  "declared (Number n) = []"
| "declared (Id_node name) = []"
| "declared (Not_node t) = declared t"
| "declared (Equal l r) = declared l @ declared r"
| "declared (NotEqual l r) = declared l @ declared r"
| "declared (Add l r) = declared l @ declared r"
| "declared (Subtract l r) = declared l @ declared r"
| "declared (Multiply l r) = declared l @ declared r"
| "declared (Divide l r) = declared l @ declared r"
| "declared (Call callee arguments) = concat (map declared arguments)"
| "declared (Return t) = declared t"
| "declared (Block statements) = concat (map declared statements)"
| "declared (If_node c t e) = declared c @ declared t @ declared e"
| "declared (While c b) = declared c @ declared b"
| "declared (Assign name v) = declared v"
| "declared (Var name v) = declared v @ [name]"
| "declared (Function name params body) = []"
| "declared (Main statements) = concat (map declared statements)"
| "declared (Assert c) = declared c"
| "declared (Ptr n) = declared n"

text \<open>
  The update of \<^verbatim>\<open>Var.Emit\<close>: \<^verbatim>\<open>env.locals[name] = env.nextLocalOffset - 4\<close>, then
  \<^verbatim>\<open>env.nextLocalOffset -= 8\<close>.
\<close>

definition bind_local :: "string \<Rightarrow> Environment \<Rightarrow> Environment" where
  "bind_local name env =
     env\<lparr>locals := (locals env)(name \<mapsto> nextLocalOffset env - 4),
         nextLocalOffset := nextLocalOffset env - 8\<rparr>"

text \<open>
  A step binds a list of names when every run of it that does not panic leaves the
  environment it found with these names bound in order; it keeps a name when no such
  run changes what the name is bound to.
\<close>

definition binds :: "string list \<Rightarrow> step \<Rightarrow> bool" where
  "binds names f = (\<forall>s ls s'. f s = (ls, Inr s') \<longrightarrow> fst s' = fold bind_local names (fst s))"




section \<open>Properties of the emitter\<close>

lemma Emit_Number_example: "Emit (Number 42) (NewEnvironment, 0) = ([''  ldr r0, =42''], Inr (NewEnvironment, 0))"
  by (simp add: emit_def Sprintf_d_def decimal.simps)

text \<open>
  Claim C5. Each of the six binary nodes prints the lines of its left operand, then
  \<^verbatim>\<open>push {r0, ip}\<close>, then the lines of its right operand (emitted in the state the left
  operand left), then \<^verbatim>\<open>pop {r1, ip}\<close>, then its own combining instructions. For
  \<open>Subtract\<close> the combining instruction is \<^verbatim>\<open>sub r0, r1, r0\<close>: its first source operand
  \<^verbatim>\<open>r1\<close> is the register the left operand's value was popped into, the second, \<^verbatim>\<open>r0\<close>,
  holds the right operand's value.
\<close>

theorem binary_emission:
  assumes "Emit l s = (ls_left, Inr s1)" and "Emit r s1 = (ls_right, Inr s2)"
  shows "Emit (Add l r) s =
           (ls_left @ [''  push {r0, ip}''] @ ls_right @
            [''  pop {r1, ip}'', ''  add r0, r1, r0''], Inr s2)
       \<and> Emit (Subtract l r) s =
           (ls_left @ [''  push {r0, ip}''] @ ls_right @
            [''  pop {r1, ip}'', ''  sub r0, r1, r0''], Inr s2)
       \<and> Emit (Multiply l r) s =
           (ls_left @ [''  push {r0, ip}''] @ ls_right @
            [''  pop {r1, ip}'', ''  mul r0, r1, r0''], Inr s2)
       \<and> Emit (Divide l r) s =
           (ls_left @ [''  push {r0, ip}''] @ ls_right @
            [''  pop {r1, ip}'', ''  udiv r0, r1, r0''], Inr s2)
       \<and> Emit (Equal l r) s =
           (ls_left @ [''  push {r0, ip}''] @ ls_right @
            [''  pop {r1, ip}'', ''  cmp r0, r1'', ''  moveq r0, #1'', ''  movne r0, #0''], Inr s2)
       \<and> Emit (NotEqual l r) s =
           (ls_left @ [''  push {r0, ip}''] @ ls_right @
            [''  pop {r1, ip}'', ''  cmp r0, r1'', ''  movne r0, #1'', ''  moveq r0, #0''], Inr s2)"
  using assms by (simp add: emit_def)

theorem binary_emission_witness:
  "Emit (Subtract (Number 7) (Number 5)) (NewEnvironment, 0) =
     ([''  ldr r0, =7'', ''  push {r0, ip}'', ''  ldr r0, =5'', ''  pop {r1, ip}'',
       ''  sub r0, r1, r0''], Inr (NewEnvironment, 0))"
proof -
  have left: "Emit (Number 7) (NewEnvironment, 0) = ([''  ldr r0, =7''], Inr (NewEnvironment, 0))"
    by (simp add: emit_def Sprintf_d_def decimal.simps)
  have right: "Emit (Number 5) (NewEnvironment, 0) = ([''  ldr r0, =5''], Inr (NewEnvironment, 0))"
    by (simp add: emit_def Sprintf_d_def decimal.simps)
  from binary_emission [OF left right] show ?thesis
    by simp
qed

text \<open>
  Claim C7. \<open>Assert\<close> prints the lines of its condition and then exactly the four lines
  \<^verbatim>\<open>cmp r0, #1\<close>, \<^verbatim>\<open>moveq r0, #'.'\<close>, \<^verbatim>\<open>movne r0, #'F'\<close>, \<^verbatim>\<open>bl putchar\<close>: the comparison is
  against the constant 1, the dot is loaded on equality and the letter F otherwise.
  (\<open>CHR 0x27\<close> is the single quote.)
\<close>

theorem Assert_emission:
  assumes "Emit condition s = (ls, Inr s1)"
  shows "Emit (Assert condition) s =
           (ls @ [''  cmp r0, #1'',
                  ''  moveq r0, #'' @ [CHR 0x27] @ ''.'' @ [CHR 0x27],
                  ''  movne r0, #'' @ [CHR 0x27] @ ''F'' @ [CHR 0x27],
                  ''  bl putchar''], Inr s1)"
  using assms by (simp add: emit_def)

theorem Assert_emission_witness:
  "Emit (Assert (Number 2)) (NewEnvironment, 0) =
     ([''  ldr r0, =2'', ''  cmp r0, #1'',
       ''  moveq r0, #'' @ [CHR 0x27] @ ''.'' @ [CHR 0x27],
       ''  movne r0, #'' @ [CHR 0x27] @ ''F'' @ [CHR 0x27],
       ''  bl putchar''], Inr (NewEnvironment, 0))"
proof -
  have cond: "Emit (Number 2) (NewEnvironment, 0) = ([''  ldr r0, =2''], Inr (NewEnvironment, 0))"
    by (simp add: emit_def Sprintf_d_def decimal.simps)
  from Assert_emission [OF cond] show ?thesis
    by simp
qed

lemma Equals_needs_pointer: "Equals a b \<Longrightarrow> \<exists>n. b = Ptr n"
  by (induction a arbitrary: b) (auto split: AST.splits)

text \<open>
  Claim C4. The claim asks for structural equality. The type assertions of the source
  are to pointer types, while the nodes the parser builds (and any copy of them) are
  struct values: on two struct values \<^verbatim>\<open>Equals\<close> is false, also when they are identical.
\<close>

theorem Equals_identical_values:
  "Equals (Number 1) (Number 1) = False
   \<and> Equals (Add (Number 1) (Number 2)) (Add (Number 1) (Number 2)) = False
   \<and> Equals (Number 1) (Ptr (Number 1)) = True"
  by simp

lemma bind_params_other: "x \<notin> set ps \<Longrightarrow> bind_params i ps m x = m x"
  by (induction ps arbitrary: i m) auto

lemma bind_params_last:
  "j < length ps \<Longrightarrow> ps ! j \<notin> set (drop (Suc j) ps) \<Longrightarrow>
   bind_params i ps m (ps ! j) = Some (4 * (i + int j) - 16)"
proof (induction ps arbitrary: i m j)
  case Nil
  then show ?case by simp
next
  case (Cons p ps)
  show ?case
  proof (cases j)
    case 0
    with Cons.prems show ?thesis by (simp add: bind_params_other)
  next
    case (Suc k)
    with Cons.prems
    have "bind_params (i + 1) ps (m(p \<mapsto> 4 * i - 16)) (ps ! k) = Some (4 * (i + 1 + int k) - 16)"
      by (intro Cons.IH) auto
    with Suc show ?thesis by (simp add: algebra_simps)
  qed
qed

text \<open>
  The environment after an emission that does not panic is the environment before it with
  the names \<open>declared\<close> by the tree bound in order.
\<close>

lemma bind_locals_offset:
  "nextLocalOffset (fold bind_local names env) = nextLocalOffset env - 8 * int (length names)"
  by (induction names arbitrary: env) (simp_all add: bind_local_def)

lemma bind_locals_other:
  "x \<notin> set names \<Longrightarrow> locals (fold bind_local names env) x = locals env x"
  by (induction names arbitrary: env) (simp_all add: bind_local_def)

lemma bind_locals_nth:
  "k < length names \<Longrightarrow> names ! k \<notin> set (drop (Suc k) names) \<Longrightarrow>
   locals (fold bind_local names env) (names ! k) = Some (nextLocalOffset env - 4 - 8 * int k)"
proof (induction names arbitrary: env k)
  case Nil
  then show ?case by simp
next
  case (Cons name names)
  show ?case
  proof (cases k)
    case 0
    with Cons.prems show ?thesis
      by (simp add: bind_locals_other) (simp add: bind_local_def)
  next
    case (Suc j)
    with Cons.prems
    have "locals (fold bind_local names (bind_local name env)) (names ! j) =
          Some (nextLocalOffset (bind_local name env) - 4 - 8 * int j)"
      by (intro Cons.IH) simp_all
    moreover have "nextLocalOffset (bind_local name env) = nextLocalOffset env - 8"
      by (simp add: bind_local_def)
    ultimately show ?thesis using Suc by simp
  qed
qed

lemma binds_emit: "binds [] (emit line)"
  by (simp add: binds_def emit_def)

lemma binds_panic: "binds names (panic msg)"
  by (simp add: binds_def panic_def)

lemma binds_lookup:
  "binds [] (\<lambda>s. case locals (fst s) name of Some offset \<Rightarrow> emit (line offset) s | None \<Rightarrow> panic msg s)"
  by (simp add: binds_def emit_def panic_def split: option.splits)

lemma binds_Cons:
  assumes "binds ns f" and "binds ms (run fs)"
  shows "binds (ns @ ms) (run (f # fs))"
  unfolding binds_def
proof (intro allI impI)
  fix s :: state and ls s'
  assume "run (f # fs) s = (ls, Inr s')"
  then obtain la sa lr where "f s = (la, Inr sa)" "run fs sa = (lr, Inr s')"
    by (auto split: prod.splits sum.splits)
  with assms have "fst sa = fold bind_local ns (fst s)" "fst s' = fold bind_local ms (fst sa)"
    unfolding binds_def by blast+
  then show "fst s' = fold bind_local (ns @ ms) (fst s)" by simp
qed

lemma binds_run: "list_all2 binds nss steps \<Longrightarrow> binds (concat nss) (run steps)"
proof (induction nss steps rule: list_all2_induct)
  case Nil
  show ?case by (simp add: binds_def)
next
  case (Cons ns nss f fs)
  from Cons(1,3) have "binds (ns @ concat nss) (run (f # fs))" by (rule binds_Cons)
  then show ?case by (simp only: concat.simps)
qed

lemma binds_in_environment: "binds [] (in_environment funcEnv body)"
  by (auto simp: binds_def in_environment_def split: prod.splits sum.splits)

lemma binds_store_args:
  assumes "\<And>t. t \<in> set ts \<Longrightarrow> binds (declared t) (Emit t)" and "binds ms (run gs)"
  shows "binds (concat (map declared ts) @ ms) (run (store_args i (map Emit ts) @ gs))"
  using assms(1)
proof (induction ts arbitrary: i)
  case Nil
  from assms(2) show ?case by simp
next
  case (Cons t ts)
  then have "binds (concat (map declared ts) @ ms) (run (store_args (i + 1) (map Emit ts) @ gs))"
    by simp
  with binds_emit have stored: "binds ([] @ concat (map declared ts) @ ms)
      (run (emit (''  str r0, [sp, #'' @ Sprintf_d (4 * i) @ '']'') # store_args (i + 1) (map Emit ts) @ gs))"
    by (rule binds_Cons)
  from Cons.prems have "binds (declared t) (Emit t)" by simp
  from this stored have "binds (declared t @ [] @ concat (map declared ts) @ ms)
      (run (Emit t # emit (''  str r0, [sp, #'' @ Sprintf_d (4 * i) @ '']'') #
            store_args (i + 1) (map Emit ts) @ gs))"
    by (rule binds_Cons)
  then show ?case by (simp del: run.simps Emit.simps)
qed

lemma binds_relabelled:
  assumes "\<And>l1 l2. binds ns (run (steps l1 l2))"
  shows "binds ns (\<lambda>s. let l1 = Label_String (snd s); l2 = Label_String (snd s + 1) in
                      run (steps l1 l2) (fst s, snd s + 2))"
  using assms unfolding binds_def by (auto simp: Let_def)

lemma binds_each:
  "(\<And>t. t \<in> set ts \<Longrightarrow> binds (declared t) (Emit t)) \<Longrightarrow>
   list_all2 binds (map declared ts) (map Emit ts)"
  by (simp add: list_all2_map1 list_all2_map2 list_all2_same)

lemma Emit_binds: "binds (declared t) (Emit t)"
proof (induction t)
  case (Number n)
  show ?case by (simp add: binds_emit)
next
  case (Id_node name)
  show ?case by (simp add: binds_lookup)
next
  case (Not_node t)
  then have "binds (concat [declared t, [], [], []]) (Emit (Not_node t))"
    unfolding Emit.simps by (intro binds_run) (simp add: binds_emit)
  then show ?case by (simp del: run.simps Emit.simps)
next
  case (Equal l r)
  then have "binds (concat [declared l, [], declared r, [], [], [], []]) (Emit (Equal l r))"
    unfolding Emit.simps by (intro binds_run) (simp add: binds_emit)
  then show ?case by (simp del: run.simps Emit.simps)
next
  case (NotEqual l r)
  then have "binds (concat [declared l, [], declared r, [], [], [], []]) (Emit (NotEqual l r))"
    unfolding Emit.simps by (intro binds_run) (simp add: binds_emit)
  then show ?case by (simp del: run.simps Emit.simps)
next
  case (Add l r)
  then have "binds (concat [declared l, [], declared r, [], []]) (Emit (Add l r))"
    unfolding Emit.simps by (intro binds_run) (simp add: binds_emit)
  then show ?case by (simp del: run.simps Emit.simps)
next
  case (Subtract l r)
  then have "binds (concat [declared l, [], declared r, [], []]) (Emit (Subtract l r))"
    unfolding Emit.simps by (intro binds_run) (simp add: binds_emit)
  then show ?case by (simp del: run.simps Emit.simps)
next
  case (Multiply l r)
  then have "binds (concat [declared l, [], declared r, [], []]) (Emit (Multiply l r))"
    unfolding Emit.simps by (intro binds_run) (simp add: binds_emit)
  then show ?case by (simp del: run.simps Emit.simps)
next
  case (Divide l r)
  then have "binds (concat [declared l, [], declared r, [], []]) (Emit (Divide l r))"
    unfolding Emit.simps by (intro binds_run) (simp add: binds_emit)
  then show ?case by (simp del: run.simps Emit.simps)
next
  case (Call callee arguments)
  then have each: "\<And>t. t \<in> set arguments \<Longrightarrow> binds (declared t) (Emit t)"
    by simp
  have "binds (concat (map declared arguments @ [[]]))
          (run (map Emit arguments @ [emit (''  bl '' @ callee)]))"
    by (intro binds_run) (simp add: list_all2_appendI binds_each [OF each] binds_emit)
  then have one: "binds (concat (map declared arguments))
          (run (map Emit arguments @ [emit (''  bl '' @ callee)]))"
    by (simp del: run.simps)
  have "binds (concat [[], []]) (run [emit ''  pop {r0, r1, r2, r3}'', emit (''  bl '' @ callee)])"
    by (intro binds_run) (simp add: binds_emit)
  then have last: "binds [] (run [emit ''  pop {r0, r1, r2, r3}'', emit (''  bl '' @ callee)])"
    by (simp del: run.simps)
  have "binds (concat (map declared arguments) @ [])
          (run (store_args 0 (map Emit arguments) @
                [emit ''  pop {r0, r1, r2, r3}'', emit (''  bl '' @ callee)]))"
    by (rule binds_store_args) (erule each, rule last)
  with binds_emit have "binds ([] @ concat (map declared arguments) @ [])
          (run (emit ''  sub sp, sp, #16'' # store_args 0 (map Emit arguments) @
                [emit ''  pop {r0, r1, r2, r3}'', emit (''  bl '' @ callee)]))"
    by (rule binds_Cons)
  then have more: "binds (concat (map declared arguments))
          (run ([emit ''  sub sp, sp, #16''] @ store_args 0 (map Emit arguments) @
                [emit ''  pop {r0, r1, r2, r3}'', emit (''  bl '' @ callee)]))"
    by (simp del: run.simps)
  have none: "binds (concat (map declared arguments)) (emit (''  bl '' @ callee))"
    if "arguments = []"
    using that by (simp add: binds_emit)
  from one more none show ?case
    by (simp add: binds_panic del: run.simps)
next
  case (Return t)
  then have "binds (concat [declared t, [], []]) (Emit (Return t))"
    unfolding Emit.simps by (intro binds_run) (simp add: binds_emit)
  then show ?case by (simp del: run.simps Emit.simps)
next
  case (Block statements)
  then have "binds (concat (map declared statements)) (Emit (Block statements))"
    unfolding Emit.simps by (intro binds_run binds_each) simp
  then show ?case by (simp del: run.simps Emit.simps)
next
  case (If_node c th e)
  then have "binds (concat [declared c, [], [], declared th, [], [], declared e, []])
      (run [Emit c, emit ''  cmp r0, #0'', emit (''  beq '' @ l1), Emit th,
            emit (''  b '' @ l2), emit (l1 @ '':''), Emit e, emit (l2 @ '':'')])" for l1 l2
    by (intro binds_run) (simp add: binds_emit)
  then have "binds (declared (If_node c th e))
      (run [Emit c, emit ''  cmp r0, #0'', emit (''  beq '' @ l1), Emit th,
            emit (''  b '' @ l2), emit (l1 @ '':''), Emit e, emit (l2 @ '':'')])" for l1 l2
    by (simp del: run.simps)
  then show ?case
    unfolding Emit.simps by (rule binds_relabelled)
next
  case (While c b)
  then have "binds (concat [[], declared c, [], [], declared b, [], []])
      (run [emit (l1 @ '':''), Emit c, emit ''  cmp r0, #0'',
            emit (''  beq '' @ l2), Emit b, emit (''  b '' @ l1), emit (l2 @ '':'')])" for l1 l2
    by (intro binds_run) (simp add: binds_emit)
  then have "binds (declared (While c b))
      (run [emit (l1 @ '':''), Emit c, emit ''  cmp r0, #0'',
            emit (''  beq '' @ l2), Emit b, emit (''  b '' @ l1), emit (l2 @ '':'')])" for l1 l2
    by (simp del: run.simps)
  then show ?case
    unfolding Emit.simps by (rule binds_relabelled)
next
  case (Assign name v)
  then have "binds (concat [declared v, []]) (Emit (Assign name v))"
    unfolding Emit.simps by (intro binds_run) (simp add: binds_lookup)
  then show ?case by (simp del: run.simps Emit.simps)
next
  case (Var name v)
  have "binds [name] (\<lambda>s. ([], Inr ((fst s)\<lparr>locals := (locals (fst s))(name \<mapsto> nextLocalOffset (fst s) - 4),
                          nextLocalOffset := nextLocalOffset (fst s) - 8\<rparr>, snd s)))"
    by (simp add: binds_def bind_local_def)
  with Var have "binds (concat [declared v, [], [name]]) (Emit (Var name v))"
    unfolding Emit.simps by (intro binds_run) (simp add: binds_emit)
  then show ?case by (simp del: run.simps Emit.simps)
next
  case (Function name params body)
  have "binds (concat [[], [], []]) emitPrologue" "binds (concat [[], [], []]) emitEpilogue"
    unfolding emitPrologue_def emitEpilogue_def by (intro binds_run, simp add: binds_emit)+
  then have "binds (concat [[], [], [], [], [], []])
     (run [emit [], emit (''.global '' @ name), emit (name @ '':''), emitPrologue,
           in_environment (setUpEnvironment params) (Emit body), emitEpilogue])"
    by (intro binds_run) (simp add: binds_emit binds_in_environment)
  then show ?case by (simp add: binds_panic del: run.simps)
next
  case (Main statements)
  then have each: "\<And>t. t \<in> set statements \<Longrightarrow> binds (declared t) (Emit t)"
    by simp
  have "binds (concat ([[], [], []] @ map declared statements @ [[], []])) (Emit (Main statements))"
    unfolding Emit.simps
    by (intro binds_run) (simp add: list_all2_appendI binds_each [OF each] binds_emit)
  then show ?case by (simp del: run.simps Emit.simps)
next
  case (Assert c)
  then have "binds (concat [declared c, [], [], [], []]) (Emit (Assert c))"
    unfolding Emit.simps by (intro binds_run) (simp add: binds_emit)
  then show ?case by (simp del: run.simps Emit.simps)
next
  case (Ptr n)
  then show ?case by (simp del: run.simps)
qed

lemma Emit_environment:
  "Emit t s = (ls, Inr s') \<Longrightarrow> fst s' = fold bind_local (declared t) (fst s)"
  using Emit_binds [of t] unfolding binds_def by blast


lemma run_append:
  "run (xs @ ys) s =
     (case run xs s of
        (ls, Inl msg) \<Rightarrow> (ls, Inl msg)
      | (ls, Inr s') \<Rightarrow> (case run ys s' of (ls', r) \<Rightarrow> (ls @ ls', r)))"
  by (induction xs arbitrary: s) (auto split: prod.splits sum.splits)


















lemma first_local_compile:
  "compile ''function f(a, b) { var x = 1; x; }'' =
     ([[], ''.global f'', ''f:'', ''  push {fp, lr}'', ''  mov fp, sp'', ''  push {r0, r1, r2, r3}'',
       ''  ldr r0, =1'', ''  push {r0, ip}'', ''  ldr r0, [fp, #-24]'',
       ''  mov sp, fp'', ''  mov r0, #0'', ''  pop {fp, pc}''], Returned ())"
  by code_simp

lemma Emit_Function:
  "length params \<le> 4 \<Longrightarrow>
   Emit (Function f params body) (env, c) =
     (case Emit body (setUpEnvironment params, c) of
        (lsb, Inl msg) \<Rightarrow>
          ([[], ''.global '' @ f, f @ '':'', ''  push {fp, lr}'', ''  mov fp, sp'',
            ''  push {r0, r1, r2, r3}''] @ lsb, Inl msg)
      | (lsb, Inr sb) \<Rightarrow>
          ([[], ''.global '' @ f, f @ '':'', ''  push {fp, lr}'', ''  mov fp, sp'',
            ''  push {r0, r1, r2, r3}''] @ lsb @
           [''  mov sp, fp'', ''  mov r0, #0'', ''  pop {fp, pc}''], Inr (env, snd sb)))"
  by (simp add: emit_def emitPrologue_def emitEpilogue_def in_environment_def
      split: prod.splits sum.splits)

lemma first_local_read:
  assumes pre: "declared (Block pre) = []" and v: "declared v = []"
    and before: "Emit (Block pre) (setUpEnvironment params, c) = (lsp, Inr sp)"
    and rhs: "Emit v sp = (lsv, Inr sv)"
  shows "Emit (Block (pre @ [Var name v, Id_node name])) (setUpEnvironment params, c) =
     (lsp @ lsv @ [''  push {r0, ip}'', ''  ldr r0, [fp, #-24]''],
      Inr (bind_local name (setUpEnvironment params), snd sv))"
proof -
  from Emit_environment [OF before] have sp: "fst sp = setUpEnvironment params"
    unfolding pre by simp
  from Emit_environment [OF rhs] have sv: "fst sv = setUpEnvironment params"
    unfolding v sp by simp
  from before have run_pre: "run (map Emit pre) (setUpEnvironment params, c) = (lsp, Inr sp)"
    by simp
  have offset: "nextLocalOffset (setUpEnvironment params) = - 20"
    by (simp add: setUpEnvironment_def)
  have "Emit (Var name v) sp =
     (lsv @ [''  push {r0, ip}''], Inr (bind_local name (setUpEnvironment params), snd sv))"
    using rhs sv by (simp add: emit_def bind_local_def)
  moreover have "Emit (Id_node name) (bind_local name (setUpEnvironment params), snd sv) =
     ([''  ldr r0, [fp, #-24]''], Inr (bind_local name (setUpEnvironment params), snd sv))"
    by (simp add: bind_local_def offset emit_def Sprintf_d_def decimal.simps)
  ultimately have "run [Emit (Var name v), Emit (Id_node name)] sp =
     (lsv @ [''  push {r0, ip}'', ''  ldr r0, [fp, #-24]''],
      Inr (bind_local name (setUpEnvironment params), snd sv))"
    by (simp del: Emit.simps)
  moreover have "Emit (Block (pre @ [Var name v, Id_node name])) =
      run (map Emit pre @ [Emit (Var name v), Emit (Id_node name)])"
    by (subst Emit.simps) (simp del: Emit.simps run.simps)
  ultimately show ?thesis
    using run_pre by (simp add: run_append del: Emit.simps run.simps)
qed

text \<open>
  Claim C2, as the code has it. \<open>Var\<close> prints the lines of its right-hand side and
  \<^verbatim>\<open>push {r0, ip}\<close>, then records \<open>name \<mapsto> nextLocalOffset - 4\<close> and lowers
  \<open>nextLocalOffset\<close> by 8, both read from the environment as the right-hand side left it.
  \<open>setUpEnvironment\<close> sets \<open>nextLocalOffset\<close> to \<open>-20\<close> and maps the parameter at index \<open>i\<close>
  to \<open>4 * i - 16\<close> when its name does not occur again at a later index (with a repeated
  name the later assignment overwrites the earlier one). Hence the first \<open>Var\<close> emitted
  from that environment (the one that finds \<open>nextLocalOffset\<close> still at \<open>-20\<close>) gets the
  offset \<open>-24\<close>, and a read of it prints \<^verbatim>\<open>ldr r0, [fp, #-24]\<close>.

  \<open>Function\<close>, with at most four parameters, prints its six opening lines, emits its body
  against \<open>setUpEnvironment\<close> of its parameters, and prints its three closing lines; the
  environment of the caller comes back unchanged. The environment at the end of the body
  is that of \<open>setUpEnvironment\<close> with the names \<open>declared\<close> by the body bound in order; the
  first binding made there is at \<open>-24\<close> and leaves \<open>nextLocalOffset\<close> at \<open>-28\<close>. So
  \<open>nextLocalOffset\<close> ends at \<open>-20 - 8 * n\<close> after \<open>n\<close> declarations, and the declaration
  numbered \<open>k\<close> (from 0), when its name is not declared again later, is at
  \<open>-24 - 8 * k\<close>. A function whose body is statements that declare nothing, then
  \<^verbatim>\<open>var name = v\<close> with nothing declared in \<open>v\<close>, then a read of \<open>name\<close>, prints for that read
  \<^verbatim>\<open>ldr r0, [fp, #-24]\<close>; so does the whole pipeline on
  \<^verbatim>\<open>function f(a, b) { var x = 1; x; }\<close>.
\<close>

theorem frame_layout:
  "(Emit v s = (ls, Inr (env1, c1)) \<longrightarrow>
      Emit (Var name v) s =
        (ls @ [''  push {r0, ip}''],
         Inr (env1\<lparr>locals := (locals env1)(name \<mapsto> nextLocalOffset env1 - 4),
                   nextLocalOffset := nextLocalOffset env1 - 8\<rparr>, c1)))
   \<and> nextLocalOffset (setUpEnvironment params) = - 20
   \<and> (i < length params \<and> params ! i \<notin> set (drop (Suc i) params) \<longrightarrow>
      locals (setUpEnvironment params) (params ! i) = Some (4 * int i - 16))
   \<and> (Emit v (setUpEnvironment params, c) = (ls', Inr (env', c')) \<and> nextLocalOffset env' = - 20 \<longrightarrow>
      (\<exists>env''. Emit (Var name v) (setUpEnvironment params, c) =
                  (ls' @ [''  push {r0, ip}''], Inr (env'', c'))
         \<and> locals env'' name = Some (- 24)
         \<and> Emit (Id_node name) (env'', c') = ([''  ldr r0, [fp, #-24]''], Inr (env'', c'))))
   \<and> (length params \<le> 4 \<longrightarrow>
        Emit (Function f params body) (env, c) =
          (case Emit body (setUpEnvironment params, c) of
             (lsb, Inl msg) \<Rightarrow>
               ([[], ''.global '' @ f, f @ '':'', ''  push {fp, lr}'', ''  mov fp, sp'',
                 ''  push {r0, r1, r2, r3}''] @ lsb, Inl msg)
           | (lsb, Inr sb) \<Rightarrow>
               ([[], ''.global '' @ f, f @ '':'', ''  push {fp, lr}'', ''  mov fp, sp'',
                 ''  push {r0, r1, r2, r3}''] @ lsb @
                [''  mov sp, fp'', ''  mov r0, #0'', ''  pop {fp, pc}''], Inr (env, snd sb))))
   \<and> (Emit body (setUpEnvironment params, c) = (lsb, Inr (envb, cb)) \<longrightarrow>
        envb = fold bind_local (declared body) (setUpEnvironment params))
   \<and> bind_local name (setUpEnvironment params) =
       (setUpEnvironment params)\<lparr>locals := (locals (setUpEnvironment params))(name \<mapsto> - 24),
                                   nextLocalOffset := - 28\<rparr>
   \<and> (Emit body (setUpEnvironment params, c) = (lsb, Inr (envb, cb)) \<longrightarrow>
        nextLocalOffset envb = - 20 - 8 * int (length (declared body)))
   \<and> (Emit body (setUpEnvironment params, c) = (lsb, Inr (envb, cb)) \<and>
      k < length (declared body) \<and> declared body ! k \<notin> set (drop (Suc k) (declared body)) \<longrightarrow>
        locals envb (declared body ! k) = Some (- 24 - 8 * int k))
   \<and> (length params \<le> 4 \<and> declared (Block pre) = [] \<and> declared v = [] \<and>
      Emit (Block pre) (setUpEnvironment params, c) = (lsp, Inr sp) \<and> Emit v sp = (lsv, Inr sv) \<longrightarrow>
        Emit (Function f params (Block (pre @ [Var name v, Id_node name]))) (env, c) =
          ([[], ''.global '' @ f, f @ '':'', ''  push {fp, lr}'', ''  mov fp, sp'',
            ''  push {r0, r1, r2, r3}''] @ lsp @ lsv @
           [''  push {r0, ip}'', ''  ldr r0, [fp, #-24]'',
            ''  mov sp, fp'', ''  mov r0, #0'', ''  pop {fp, pc}''], Inr (env, snd sv)))
   \<and> compile ''function f(a, b) { var x = 1; x; }'' =
       ([[], ''.global f'', ''f:'', ''  push {fp, lr}'', ''  mov fp, sp'', ''  push {r0, r1, r2, r3}'',
         ''  ldr r0, =1'', ''  push {r0, ip}'', ''  ldr r0, [fp, #-24]'',
         ''  mov sp, fp'', ''  mov r0, #0'', ''  pop {fp, pc}''], Returned ())"
proof -
  have var_emitted: "Emit (Var name v) s =
        (ls @ [''  push {r0, ip}''],
         Inr (env1\<lparr>locals := (locals env1)(name \<mapsto> nextLocalOffset env1 - 4),
                   nextLocalOffset := nextLocalOffset env1 - 8\<rparr>, c1))"
    if "Emit v s = (ls, Inr (env1, c1))"
    using that by (simp add: emit_def)
  have offset: "nextLocalOffset (setUpEnvironment params) = - 20"
    by (simp add: setUpEnvironment_def)
  have parameter: "locals (setUpEnvironment params) (params ! i) = Some (4 * int i - 16)"
    if "i < length params \<and> params ! i \<notin> set (drop (Suc i) params)"
    using that bind_params_last [of i params 0 Map.empty] by (simp add: setUpEnvironment_def)
  have first: "\<exists>env''. Emit (Var name v) (setUpEnvironment params, c) =
                  (ls' @ [''  push {r0, ip}''], Inr (env'', c'))
         \<and> locals env'' name = Some (- 24)
         \<and> Emit (Id_node name) (env'', c') = ([''  ldr r0, [fp, #-24]''], Inr (env'', c'))"
    if "Emit v (setUpEnvironment params, c) = (ls', Inr (env', c')) \<and> nextLocalOffset env' = - 20"
    using that by (auto simp: emit_def Sprintf_d_def decimal.simps)
  have exact: "envb = fold bind_local (declared body) (setUpEnvironment params)"
    if "Emit body (setUpEnvironment params, c) = (lsb, Inr (envb, cb))"
    using Emit_environment [OF that] by simp
  have bound: "bind_local name (setUpEnvironment params) =
       (setUpEnvironment params)\<lparr>locals := (locals (setUpEnvironment params))(name \<mapsto> - 24),
                                   nextLocalOffset := - 28\<rparr>"
    by (simp add: bind_local_def offset)
  have declared_offset: "nextLocalOffset envb = - 20 - 8 * int (length (declared body))"
    if "Emit body (setUpEnvironment params, c) = (lsb, Inr (envb, cb))"
    using Emit_environment [OF that] by (simp add: bind_locals_offset offset)
  have kth_local: "locals envb (declared body ! k) = Some (- 24 - 8 * int k)"
    if "Emit body (setUpEnvironment params, c) = (lsb, Inr (envb, cb)) \<and>
        k < length (declared body) \<and> declared body ! k \<notin> set (drop (Suc k) (declared body))"
    using that Emit_environment [of body "(setUpEnvironment params, c)" lsb "(envb, cb)"]
    by (simp add: bind_locals_nth offset)
  have read: "Emit (Function f params (Block (pre @ [Var name v, Id_node name]))) (env, c) =
          ([[], ''.global '' @ f, f @ '':'', ''  push {fp, lr}'', ''  mov fp, sp'',
            ''  push {r0, r1, r2, r3}''] @ lsp @ lsv @
           [''  push {r0, ip}'', ''  ldr r0, [fp, #-24]'',
            ''  mov sp, fp'', ''  mov r0, #0'', ''  pop {fp, pc}''], Inr (env, snd sv))"
    if "length params \<le> 4 \<and> declared (Block pre) = [] \<and> declared v = [] \<and>
      Emit (Block pre) (setUpEnvironment params, c) = (lsp, Inr sp) \<and> Emit v sp = (lsv, Inr sv)"
  proof -
    note small = that [THEN conjunct1]
      and pre = that [THEN conjunct2, THEN conjunct1]
      and v = that [THEN conjunct2, THEN conjunct2, THEN conjunct1]
      and before = that [THEN conjunct2, THEN conjunct2, THEN conjunct2, THEN conjunct1]
      and rhs = that [THEN conjunct2, THEN conjunct2, THEN conjunct2, THEN conjunct2]
    have "Emit (Block (pre @ [Var name v, Id_node name])) (setUpEnvironment params, c) =
       (lsp @ lsv @ [''  push {r0, ip}'', ''  ldr r0, [fp, #-24]''],
        Inr (bind_local name (setUpEnvironment params), snd sv))"
      by (rule first_local_read [OF pre v before rhs])
    with small show ?thesis
      by (simp add: Emit_Function del: Emit.simps)
  qed
  show ?thesis
    apply (rule conjI, rule impI, erule var_emitted)
    apply (rule conjI, rule offset)
    apply (rule conjI, rule impI, erule parameter)
    apply (rule conjI, rule impI, erule first)
    apply (rule conjI, rule impI, erule Emit_Function)
    apply (rule conjI, rule impI, erule exact)
    apply (rule conjI, rule bound)
    apply (rule conjI, rule impI, erule declared_offset)
    apply (rule conjI, rule impI, erule kth_local)
    apply (rule conjI, rule impI, erule read)
    apply (rule first_local_compile)
    done
qed


theorem frame_layout_witness:
  "locals (setUpEnvironment [''a'', ''b'']) ''b'' = Some (- 12)
   \<and> Emit (Var ''x'' (Number 1)) (setUpEnvironment [''a'', ''b''], 0) =
       ([''  ldr r0, =1'', ''  push {r0, ip}''],
        Inr ((setUpEnvironment [''a'', ''b''])
               \<lparr>locals := (locals (setUpEnvironment [''a'', ''b'']))(''x'' \<mapsto> - 24),
                nextLocalOffset := - 28\<rparr>, 0))
   \<and> (\<exists>env''. Emit (Var ''x'' (Number 1)) (setUpEnvironment [''a'', ''b''], 0) =
                 ([''  ldr r0, =1'', ''  push {r0, ip}''], Inr (env'', 0))
        \<and> locals env'' ''x'' = Some (- 24)
        \<and> Emit (Id_node ''x'') (env'', 0) = ([''  ldr r0, [fp, #-24]''], Inr (env'', 0)))
   \<and> Emit (Function ''f'' [''a'', ''b''] (Block [Id_node ''a'', Var ''x'' (Number 1), Id_node ''x'']))
         (NewEnvironment, 0) =
       ([[], ''.global f'', ''f:'', ''  push {fp, lr}'', ''  mov fp, sp'', ''  push {r0, r1, r2, r3}'',
         ''  ldr r0, [fp, #-16]'', ''  ldr r0, =1'', ''  push {r0, ip}'', ''  ldr r0, [fp, #-24]'',
         ''  mov sp, fp'', ''  mov r0, #0'', ''  pop {fp, pc}''], Inr (NewEnvironment, 0))
   \<and> bind_local ''x'' (setUpEnvironment [''a'', ''b'']) =
       fold bind_local (declared (Block [Id_node ''a'', Var ''x'' (Number 1), Id_node ''x'']))
         (setUpEnvironment [''a'', ''b''])
   \<and> nextLocalOffset (bind_local ''x'' (setUpEnvironment [''a'', ''b''])) = - 28
   \<and> locals (bind_local ''x'' (setUpEnvironment [''a'', ''b''])) ''x'' = Some (- 24)
   \<and> Emit (Function ''g'' [''a'', ''b''] (Block ([Id_node ''a''] @ [Var ''x'' (Number 1), Id_node ''x''])))
         (NewEnvironment, 0) =
       ([[], ''.global g'', ''g:'', ''  push {fp, lr}'', ''  mov fp, sp'', ''  push {r0, r1, r2, r3}'',
         ''  ldr r0, [fp, #-16]'', ''  ldr r0, =1'', ''  push {r0, ip}'', ''  ldr r0, [fp, #-24]'',
         ''  mov sp, fp'', ''  mov r0, #0'', ''  pop {fp, pc}''], Inr (NewEnvironment, 0))"
proof -
  let ?ps = "[''a'', ''b'']"
  let ?body = "Block [Id_node ''a'', Var ''x'' (Number 1), Id_node ''x'']"
  let ?lsb = "[''  ldr r0, [fp, #-16]'', ''  ldr r0, =1'', ''  push {r0, ip}'', ''  ldr r0, [fp, #-24]'']"
  have rhs: "Emit (Number 1) (setUpEnvironment ?ps, 0) = ([''  ldr r0, =1''], Inr (setUpEnvironment ?ps, 0))"
    by (simp add: emit_def Sprintf_d_def decimal.simps)
  have off: "nextLocalOffset (setUpEnvironment ?ps) = - 20"
    by (simp add: setUpEnvironment_def)
  have idx: "(1::nat) < length ?ps \<and> ?ps ! 1 \<notin> set (drop (Suc 1) ?ps)"
    by simp
  have small: "length ?ps \<le> 4"
    by simp
  have before: "Emit (Block [Id_node ''a'']) (setUpEnvironment ?ps, 0) =
      ([''  ldr r0, [fp, #-16]''], Inr (setUpEnvironment ?ps, 0))"
    by (simp add: emit_def setUpEnvironment_def Sprintf_d_def decimal.simps)
  have body: "Emit ?body (setUpEnvironment ?ps, 0) =
      (?lsb, Inr (bind_local ''x'' (setUpEnvironment ?ps), 0))"
    by (simp add: emit_def setUpEnvironment_def bind_local_def Sprintf_d_def decimal.simps)
  have names: "declared ?body = [''x'']" "declared (Block [Id_node ''a'']) = []"
      "declared (Number 1) = []"
    by simp_all
  note layout = frame_layout [where v = "Number 1" and s = "(setUpEnvironment ?ps, 0)"
      and ls = "[''  ldr r0, =1'']" and ?env1.0 = "setUpEnvironment ?ps" and ?c1.0 = 0
      and name = "''x''" and params = ?ps and i = 1 and c = 0 and ls' = "[''  ldr r0, =1'']"
      and env' = "setUpEnvironment ?ps" and c' = 0 and body = ?body and env = NewEnvironment
      and lsb = ?lsb and envb = "bind_local ''x'' (setUpEnvironment ?ps)" and cb = 0 and k = 0
      and pre = "[Id_node ''a'']" and lsp = "[''  ldr r0, [fp, #-16]'']"
      and sp = "(setUpEnvironment ?ps, 0)" and lsv = "[''  ldr r0, =1'']"
      and sv = "(setUpEnvironment ?ps, 0)"]
  from layout [where f = "''f''", THEN conjunct1] rhs
  have "Emit (Var ''x'' (Number 1)) (setUpEnvironment ?ps, 0) =
        ([''  ldr r0, =1''] @ [''  push {r0, ip}''],
         Inr ((setUpEnvironment ?ps)
                \<lparr>locals := (locals (setUpEnvironment ?ps))(''x'' \<mapsto> nextLocalOffset (setUpEnvironment ?ps) - 4),
                 nextLocalOffset := nextLocalOffset (setUpEnvironment ?ps) - 8\<rparr>, 0))"
    by (rule mp)
  then have declared: "Emit (Var ''x'' (Number 1)) (setUpEnvironment ?ps, 0) =
       ([''  ldr r0, =1'', ''  push {r0, ip}''],
        Inr ((setUpEnvironment ?ps)
               \<lparr>locals := (locals (setUpEnvironment ?ps))(''x'' \<mapsto> - 24),
                nextLocalOffset := - 28\<rparr>, 0))"
    by (simp only: off append.simps) simp
  from layout [where f = "''f''", THEN conjunct2, THEN conjunct2, THEN conjunct1] idx
  have "locals (setUpEnvironment ?ps) (?ps ! 1) = Some (4 * int 1 - 16)"
    by (rule mp)
  then have param: "locals (setUpEnvironment ?ps) ''b'' = Some (- 12)"
    by simp
  from rhs off
  have "Emit (Number 1) (setUpEnvironment ?ps, 0) = ([''  ldr r0, =1''], Inr (setUpEnvironment ?ps, 0))
        \<and> nextLocalOffset (setUpEnvironment ?ps) = - 20"
    by (rule conjI)
  with layout [where f = "''f''", THEN conjunct2, THEN conjunct2, THEN conjunct2, THEN conjunct1]
  have "\<exists>env''. Emit (Var ''x'' (Number 1)) (setUpEnvironment ?ps, 0) =
                 ([''  ldr r0, =1''] @ [''  push {r0, ip}''], Inr (env'', 0))
        \<and> locals env'' ''x'' = Some (- 24)
        \<and> Emit (Id_node ''x'') (env'', 0) = ([''  ldr r0, [fp, #-24]''], Inr (env'', 0))"
    by (rule mp)
  then have first_local: "\<exists>env''. Emit (Var ''x'' (Number 1)) (setUpEnvironment ?ps, 0) =
                 ([''  ldr r0, =1'', ''  push {r0, ip}''], Inr (env'', 0))
        \<and> locals env'' ''x'' = Some (- 24)
        \<and> Emit (Id_node ''x'') (env'', 0) = ([''  ldr r0, [fp, #-24]''], Inr (env'', 0))"
    by (simp only: append.simps)
  from layout [where f = "''f''", THEN conjunct2, THEN conjunct2, THEN conjunct2, THEN conjunct2,
      THEN conjunct1] small
  have "Emit (Function ''f'' ?ps ?body) (NewEnvironment, 0) =
          (case Emit ?body (setUpEnvironment ?ps, 0) of
             (lsb, Inl msg) \<Rightarrow>
               ([[], ''.global '' @ ''f'', ''f'' @ '':'', ''  push {fp, lr}'', ''  mov fp, sp'',
                 ''  push {r0, r1, r2, r3}''] @ lsb, Inl msg)
           | (lsb, Inr sb) \<Rightarrow>
               ([[], ''.global '' @ ''f'', ''f'' @ '':'', ''  push {fp, lr}'', ''  mov fp, sp'',
                 ''  push {r0, r1, r2, r3}''] @ lsb @
                [''  mov sp, fp'', ''  mov r0, #0'', ''  pop {fp, pc}''], Inr (NewEnvironment, snd sb)))"
    by (rule mp)
  then have emitted: "Emit (Function ''f'' ?ps ?body) (NewEnvironment, 0) =
       ([[], ''.global f'', ''f:'', ''  push {fp, lr}'', ''  mov fp, sp'', ''  push {r0, r1, r2, r3}'',
         ''  ldr r0, [fp, #-16]'', ''  ldr r0, =1'', ''  push {r0, ip}'', ''  ldr r0, [fp, #-24]'',
         ''  mov sp, fp'', ''  mov r0, #0'', ''  pop {fp, pc}''], Inr (NewEnvironment, 0))"
    by (simp only: body prod.case sum.case append.simps snd_conv)
  from layout [where f = "''f''", THEN conjunct2, THEN conjunct2, THEN conjunct2, THEN conjunct2,
      THEN conjunct2, THEN conjunct1] body
  have exact: "bind_local ''x'' (setUpEnvironment ?ps) = fold bind_local (declared ?body) (setUpEnvironment ?ps)"
    by (rule mp)
  from layout [where f = "''f''", THEN conjunct2, THEN conjunct2, THEN conjunct2, THEN conjunct2,
      THEN conjunct2, THEN conjunct2, THEN conjunct2, THEN conjunct1] body
  have "nextLocalOffset (bind_local ''x'' (setUpEnvironment ?ps)) = - 20 - 8 * int (length (declared ?body))"
    by (rule mp)
  then have next_offset: "nextLocalOffset (bind_local ''x'' (setUpEnvironment ?ps)) = - 28"
    by (simp only: names) simp
  have "Emit ?body (setUpEnvironment ?ps, 0) = (?lsb, Inr (bind_local ''x'' (setUpEnvironment ?ps), 0)) \<and>
      0 < length (declared ?body) \<and> declared ?body ! 0 \<notin> set (drop (Suc 0) (declared ?body))"
    using body by (simp only: names) simp
  with layout [where f = "''f''", THEN conjunct2, THEN conjunct2, THEN conjunct2, THEN conjunct2,
      THEN conjunct2, THEN conjunct2, THEN conjunct2, THEN conjunct2, THEN conjunct1]
  have "locals (bind_local ''x'' (setUpEnvironment ?ps)) (declared ?body ! 0) = Some (- 24 - 8 * int 0)"
    by (rule mp)
  then have slot: "locals (bind_local ''x'' (setUpEnvironment ?ps)) ''x'' = Some (- 24)"
    by (simp only: names) simp
  have "length ?ps \<le> 4 \<and> declared (Block [Id_node ''a'']) = [] \<and> declared (Number 1) = [] \<and>
      Emit (Block [Id_node ''a'']) (setUpEnvironment ?ps, 0) =
        ([''  ldr r0, [fp, #-16]''], Inr (setUpEnvironment ?ps, 0)) \<and>
      Emit (Number 1) (setUpEnvironment ?ps, 0) = ([''  ldr r0, =1''], Inr (setUpEnvironment ?ps, 0))"
    by (intro conjI small names before rhs)
  with layout [where f = "''g''", THEN conjunct2, THEN conjunct2, THEN conjunct2, THEN conjunct2,
      THEN conjunct2, THEN conjunct2, THEN conjunct2, THEN conjunct2, THEN conjunct2, THEN conjunct1]
  have "Emit (Function ''g'' ?ps (Block ([Id_node ''a''] @ [Var ''x'' (Number 1), Id_node ''x'']))) (NewEnvironment, 0) =
          ([[], ''.global '' @ ''g'', ''g'' @ '':'', ''  push {fp, lr}'', ''  mov fp, sp'',
            ''  push {r0, r1, r2, r3}''] @ [''  ldr r0, [fp, #-16]''] @ [''  ldr r0, =1''] @
           [''  push {r0, ip}'', ''  ldr r0, [fp, #-24]'',
            ''  mov sp, fp'', ''  mov r0, #0'', ''  pop {fp, pc}''], Inr (NewEnvironment, snd (setUpEnvironment ?ps, 0 :: int)))"
    by (rule mp)
  then have read: "Emit (Function ''g'' ?ps (Block ([Id_node ''a''] @ [Var ''x'' (Number 1), Id_node ''x'']))) (NewEnvironment, 0) =
       ([[], ''.global g'', ''g:'', ''  push {fp, lr}'', ''  mov fp, sp'', ''  push {r0, r1, r2, r3}'',
         ''  ldr r0, [fp, #-16]'', ''  ldr r0, =1'', ''  push {r0, ip}'', ''  ldr r0, [fp, #-24]'',
         ''  mov sp, fp'', ''  mov r0, #0'', ''  pop {fp, pc}''], Inr (NewEnvironment, 0))"
    by (simp only: append.simps snd_conv)
  from param declared first_local emitted exact next_offset slot read show ?thesis
    by (intro conjI)
qed


theorem parameter_offsets_counterexample:
  "locals (setUpEnvironment [''a'', ''a'']) ([''a'', ''a''] ! 0) = Some (- 12)
   \<and> locals (setUpEnvironment [''a'', ''a'']) ([''a'', ''a''] ! 0) \<noteq> Some (4 * int 0 - 16)"
  by (simp add: setUpEnvironment_def)

section \<open>Properties of the parser combinators\<close>

lemma Parse_Some [simp]: "Parse (Some f) source = f source"
  by (simp add: Parse_def)

lemma Parse_None [simp]: "Parse None source \<noteq> Success v n" "Parse None source \<noteq> Failure"
  by (simp_all add: Parse_def)

lemma advancesI:
  assumes "\<And>source v next_source. in_text source \<Longrightarrow> Parse p source = Success v next_source \<Longrightarrow>
     str next_source = str source \<and> index source \<le> index next_source \<and>
        index next_source \<le> int (length (str source))"
  shows "advances p"
  using assms unfolding advances_def by blast

lemma advancesD:
  assumes "advances p" "in_text source" "Parse p source = Success v next_source"
  shows "str next_source = str source" "index source \<le> index next_source"
    "index next_source \<le> int (length (str source))" "in_text next_source"
  using assms unfolding advances_def in_text_def by (metis order_trans)+

lemma match_here_le: "match_here pat prev s = Some n \<Longrightarrow> n \<le> length s"
  by (induction pat prev s arbitrary: n rule: match_here.induct)
     (auto split: if_splits option.splits)

lemma Match_Success:
  assumes "Match pat source = Success v next_source"
  shows "str next_source = str source" "index source < index next_source \<or> v = []"
    "index source \<le> index next_source"
    "index next_source \<le> int (length (str source))" "0 \<le> index source"
    "index source < int (length (str source))"
  using assms match_here_le [of pat None "drop (nat (index source)) (str source)"]
  by (auto simp: Match_def NewSource_def split: if_splits option.splits)

lemma advances_Regexp: "advances (Regexp pat)"
  by (rule advancesI) (auto simp: Regexp_def dest: Match_Success)

lemma advances_Constant: "advances (Constant v)"
  by (rule advancesI) (auto simp: Constant_def in_text_def)

lemma Or_Parse_Success:
  "Or_Parse ps source = Success v n \<Longrightarrow> \<exists>p \<in> set ps. Parse p source = Success v n"
  by (induction ps) (auto split: option.splits ParseResult.splits)

lemma advances_Or: "list_all advances ps \<Longrightarrow> advances (Or ps)"
  by (rule advancesI) (auto simp: Or_def list_all_iff dest!: Or_Parse_Success dest: advancesD)

lemma Many_loop_advances_aux:
  assumes "Many_loop f acc source = Some r"
  shows "advances (Some f) \<longrightarrow> in_text source \<longrightarrow>
         (\<forall>vs next_source. r = Success vs next_source \<longrightarrow> follows source next_source)"
  using assms
proof (rule Many_loop.raw_induct [where P = "\<lambda>f acc source r. advances (Some f) \<longrightarrow> in_text source \<longrightarrow>
         (\<forall>vs next_source. r = Success vs next_source \<longrightarrow> follows source next_source)", rotated])
  fix loop :: "(Source \<Rightarrow> 'a ParseResult) \<Rightarrow> 'a list \<Rightarrow> Source \<Rightarrow> 'a list ParseResult option"
    and f acc source r
  assume IH: "\<And>f acc source r. loop f acc source = Some r \<Longrightarrow> advances (Some f) \<longrightarrow> in_text source \<longrightarrow>
         (\<forall>vs next_source. r = Success vs next_source \<longrightarrow> follows source next_source)"
    and step: "(case f source of
        Failure \<Rightarrow> Some (Success acc source)
      | Success v next_source \<Rightarrow> loop f (acc @ [v]) next_source
      | Panicked msg \<Rightarrow> Some (Panicked msg)
      | Diverged \<Rightarrow> None) = Some r"
  show "advances (Some f) \<longrightarrow> in_text source \<longrightarrow>
         (\<forall>vs next_source. r = Success vs next_source \<longrightarrow> follows source next_source)"
  proof (intro impI allI)
    fix vs next_source
    assume adv: "advances (Some f)" and src: "in_text source" and r: "r = Success vs next_source"
    show "follows source next_source"
    proof (cases "f source")
      case Failure
      with step r src show ?thesis by (auto simp: follows_def in_text_def)
    next
      case (Success v n)
      with adv src have n: "str n = str source" "index source \<le> index n" "in_text n"
        by (auto dest: advancesD)
      from step Success have "loop f (acc @ [v]) n = Some r" by simp
      from IH [OF this] adv n(3) r have "follows n next_source" by blast
      with n show ?thesis by (auto simp: follows_def)
    next
      case (Panicked m)
      with step r show ?thesis by auto
    next
      case Diverged
      with step show ?thesis by auto
    qed
  qed
qed

lemma Many_loop_advances:
  "Many_loop f acc source = Some (Success vs next_source) \<Longrightarrow> advances (Some f) \<Longrightarrow>
   in_text source \<Longrightarrow> follows source next_source"
  using Many_loop_advances_aux by blast

lemma advances_Many: "advances p \<Longrightarrow> advances (Many p)"
  by (rule advancesI)
     (auto simp: Many_def Many_Parse_def in_text_def follows_def split: option.splits
           dest: Many_loop_advances)

lemma advances_Maybe: "advances p \<Longrightarrow> advances (Maybe p)"
  by (rule advancesI)
     (auto simp: Maybe_def Maybe_Parse_def in_text_def split: option.splits ParseResult.splits
           dest: advancesD)

lemma Bind_Success:
  "Parse (Bind p k) source = Success v n \<Longrightarrow>
   \<exists>u m. Parse p source = Success u m \<and> Parse (k u) m = Success v n"
  by (auto simp: Bind_def Bind_Parse_def split: option.splits ParseResult.splits)

lemma advances_Bind:
  assumes "advances p" and "\<And>v. advances (k v)"
  shows "advances (Bind p k)"
proof (rule advancesI)
  fix source v next_source
  assume a: "in_text source" "Parse (Bind p k) source = Success v next_source"
  then obtain u m where p: "Parse p source = Success u m" and k: "Parse (k u) m = Success v next_source"
    by (blast dest: Bind_Success)
  from advancesD [OF assms(1) a(1) p] advancesD [OF assms(2) _ k]
  show "str next_source = str source \<and> index source \<le> index next_source \<and>
        index next_source \<le> int (length (str source))"
    by auto
qed

lemma advances_And: "advances p \<Longrightarrow> advances q \<Longrightarrow> advances (And p q)"
  by (simp add: And_def advances_Bind)

lemma advances_Map: "advances p \<Longrightarrow> advances (Map p g)"
  by (simp add: Map_def advances_Bind advances_Constant)


lemmas [advances_intros] = advances_Regexp advances_Constant advances_Many advances_Maybe
  advances_Bind advances_And advances_Map

lemma advances_Or_Nil [advances_intros]: "advances (Or [])"
  by (simp add: advances_Or)

lemma advances_Or_Cons [advances_intros]: "advances p \<Longrightarrow> advances (Or ps) \<Longrightarrow> advances (Or (p # ps))"
  by (rule advancesI) (auto simp: Or_def split: option.splits ParseResult.splits dest: advancesD)

lemma advances_panicking [advances_intros]: "advances (Some (\<lambda>source. Panicked msg))"
  by (rule advancesI) simp

lemma advances_if [advances_intros]: "advances p \<Longrightarrow> advances q \<Longrightarrow> advances (if c then p else q)"
  by simp

lemma advances_case_list [advances_intros]:
  "advances p \<Longrightarrow> (\<And>x xs. advances (q x xs)) \<Longrightarrow> advances (case l of [] \<Rightarrow> p | x # xs \<Rightarrow> q x xs)"
  by (cases l) simp_all

lemma advances_ignored [advances_intros]: "advances ignored"
  unfolding ignored_def whitespace_def comments_def by (intro advances_intros)

lemma advances_token [advances_intros]: "advances (token pat)"
  unfolding token_def by (intro advances_intros)

lemma advances_tokens [advances_intros]:
  "advances FUNCTION" "advances IF" "advances WHILE" "advances ELSE" "advances RETURN" "advances VAR"
  "advances COMMA" "advances SEMICOLON" "advances LEFT_PAREN" "advances RIGHT_PAREN"
  "advances LEFT_BRACE" "advances RIGHT_BRACE" "advances NUMBER" "advances ID" "advances idParser"
  "advances NOT" "advances EQUAL" "advances NOT_EQUAL" "advances PLUS" "advances MINUS"
  "advances STAR" "advances SLASH" "advances ASSIGN_OP"
  unfolding FUNCTION_def IF_def WHILE_def ELSE_def RETURN_def VAR_def COMMA_def SEMICOLON_def
    LEFT_PAREN_def RIGHT_PAREN_def LEFT_BRACE_def RIGHT_BRACE_def NUMBER_def ID_def idParser_def
    NOT_def EQUAL_def NOT_EQUAL_def PLUS_def MINUS_def STAR_def SLASH_def ASSIGN_OP_def
  by (intro advances_intros)+

lemma advances_infix_parser [advances_intros]:
  "advances operatOr \<Longrightarrow> advances termParser \<Longrightarrow> advances (infix_parser operatOr termParser)"
  unfolding infix_parser_def by (intro advances_intros)

lemma advances_getComparisonParser:
  assumes "advances e"
  shows "advances (getComparisonParser e)"
  unfolding getComparisonParser_def sum_parser_def product_parser_def unary_def atom_def call_def
    args_def
  by (intro advances_intros assms)

lemma advances_expression_at: "advances (Some (expression_at depth))"
proof (induction depth)
  case 0
  show ?case by (rule advancesI) simp
next
  case (Suc depth)
  from advances_getComparisonParser [OF Suc] show ?case
    unfolding advances_def by simp
qed

lemma advances_expression [advances_intros]: "advances expression"
proof (rule advancesI)
  fix source v next_source
  assume src: "in_text source" and "Parse expression source = Success v next_source"
  then have "Parse (Some (expression_at (Suc (remaining source)))) source = Success v next_source"
    by (simp add: expression_def del: expression_at.simps)
  from advancesD [OF advances_expression_at src this]
  show "str next_source = str source \<and> index source \<le> index next_source \<and>
        index next_source \<le> int (length (str source))"
    by simp
qed

lemma advances_parameters [advances_intros]: "advances parameters"
  unfolding parameters_def by (intro advances_intros)

lemma advances_getStatementParser:
  assumes "advances st"
  shows "advances (getStatementParser st)"
  unfolding getStatementParser_def returnStatement_def functionStatement_def ifStatement_def
    whileStatement_def varStatement_def assignmentStatement_def blockStatement_def
    expressionStatement_def
  by (intro advances_intros assms)

lemma advances_statement_at: "advances (Some (statement_at depth))"
proof (induction depth)
  case 0
  show ?case by (rule advancesI) simp
next
  case (Suc depth)
  from advances_getStatementParser [OF Suc] show ?case
    unfolding advances_def by simp
qed

lemma advances_statement [advances_intros]: "advances statement"
proof (rule advancesI)
  fix source v next_source
  assume src: "in_text source" and "Parse statement source = Success v next_source"
  then have "Parse (Some (statement_at (Suc (remaining source)))) source = Success v next_source"
    by (simp add: statement_def del: statement_at.simps)
  from advancesD [OF advances_statement_at src this]
  show "str next_source = str source \<and> index source \<le> index next_source \<and>
        index next_source \<le> int (length (str source))"
    by simp
qed

lemma advances_parser [advances_intros]: "advances parser"
  unfolding parser_def by (intro advances_intros)


text \<open>
  Claim C9. Every parser built from the kernel advances: the two leaves \<open>Regexp\<close> and
  \<open>Constant\<close> do, and \<open>Or\<close>, \<open>Many\<close>, \<open>Maybe\<close>, \<open>Bind\<close>, \<open>And\<close> and \<open>Map\<close> do when the parsers
  they are built from do; so do the tokens and the parsers of the grammar. That is: from
  a cursor with \<open>0 \<le> index \<le> |text|\<close> a success returns a cursor over the same text with
  \<open>index \<le> index' \<le> |text|\<close>. A failure is the value \<open>Failure\<close> (nil), which carries no
  cursor.
\<close>

theorem cursor_monotone:
  "advances (Regexp pat) \<and> advances (Constant c)
   \<and> (list_all advances ps \<longrightarrow> advances (Or ps))
   \<and> (advances p \<longrightarrow> advances (Many p))
   \<and> (advances p \<longrightarrow> advances (Maybe p))
   \<and> (advances p \<and> (\<forall>v. advances (k v)) \<longrightarrow> advances (Bind p k))
   \<and> (advances p \<and> advances q \<longrightarrow> advances (And p q))
   \<and> (advances p \<longrightarrow> advances (Map p g))
   \<and> advances (token pat) \<and> advances expression \<and> advances statement
   \<and> advances parameters \<and> advances parser"
  by (simp add: advances_intros advances_Or)

lemma Many_run_example:
  "Parse (Many (Regexp [AtLeastOnce (Single CHR ''a'')])) (NewSource ''aab'' 0) =
     Success [''aa''] (NewSource ''aab'' 2)"
  by code_simp

lemma composite_run_example:
  "Parse (Map (And (Maybe (Regexp [AtLeastOnce (Single CHR ''a'')]))
                   (Bind (Many (Or [Regexp [AtLeastOnce (Single CHR ''a'')]])) Constant)) length)
     (NewSource ''aab'' 0) = Success 0 (NewSource ''aab'' 2)"
  by code_simp

theorem cursor_monotone_witness:
  "Parse (Map (And (Maybe (Regexp [AtLeastOnce (Single CHR ''a'')]))
                   (Bind (Many (Or [Regexp [AtLeastOnce (Single CHR ''a'')]])) Constant)) length)
     (NewSource ''aab'' 0) = Success 0 (NewSource ''aab'' 2)
   \<and> str (NewSource ''aab'' 2) = str (NewSource ''aab'' 0)
   \<and> index (NewSource ''aab'' 0) \<le> index (NewSource ''aab'' 2)
   \<and> index (NewSource ''aab'' 2) \<le> int (length (str (NewSource ''aab'' 0)))"
proof -
  let ?a = "Regexp [AtLeastOnce (Single CHR ''a'')]"
  have leaf: "advances ?a"
    by (rule cursor_monotone [THEN conjunct1])
  then have "list_all advances [?a]"
    by simp
  with cursor_monotone [where ps = "[?a]", THEN conjunct2, THEN conjunct2, THEN conjunct1]
  have choice: "advances (Or [?a])"
    by (rule mp)
  with cursor_monotone [where p = "Or [?a]", THEN conjunct2, THEN conjunct2, THEN conjunct2,
      THEN conjunct1]
  have many: "advances (Many (Or [?a]))"
    by (rule mp)
  from cursor_monotone [where p = ?a, THEN conjunct2, THEN conjunct2, THEN conjunct2,
      THEN conjunct2, THEN conjunct1] leaf
  have maybe: "advances (Maybe ?a)"
    by (rule mp)
  have constants: "\<forall>v :: string list. advances (Constant v)"
    by (rule allI) (rule cursor_monotone [THEN conjunct2, THEN conjunct1])
  with many have "advances (Many (Or [?a])) \<and> (\<forall>v :: string list. advances (Constant v))"
    by (rule conjI)
  with cursor_monotone [where p = "Many (Or [?a])" and k = Constant, THEN conjunct2,
      THEN conjunct2, THEN conjunct2, THEN conjunct2, THEN conjunct2, THEN conjunct1]
  have bind: "advances (Bind (Many (Or [?a])) Constant)"
    by (rule mp)
  from maybe bind have "advances (Maybe ?a) \<and> advances (Bind (Many (Or [?a])) Constant)"
    by (rule conjI)
  with cursor_monotone [where p = "Maybe ?a" and q = "Bind (Many (Or [?a])) Constant",
      THEN conjunct2, THEN conjunct2, THEN conjunct2, THEN conjunct2, THEN conjunct2,
      THEN conjunct2, THEN conjunct1]
  have sequence: "advances (And (Maybe ?a) (Bind (Many (Or [?a])) Constant))"
    by (rule mp)
  with cursor_monotone [where p = "And (Maybe ?a) (Bind (Many (Or [?a])) Constant)" and g = length,
      THEN conjunct2, THEN conjunct2, THEN conjunct2, THEN conjunct2, THEN conjunct2,
      THEN conjunct2, THEN conjunct2, THEN conjunct1]
  have mapped: "advances (Map (And (Maybe ?a) (Bind (Many (Or [?a])) Constant)) length)"
    by (rule mp)
  have src: "in_text (NewSource ''aab'' 0)"
    by (simp add: in_text_def NewSource_def)
  from advancesD(1-3) [OF mapped src composite_run_example] composite_run_example show ?thesis
    by (intro conjI)
qed

lemma Many_loop_collects_aux:
  assumes "Many_loop f acc source = Some r"
  shows "\<forall>vs final. r = Success vs final \<longrightarrow> (\<exists>ws. vs = acc @ ws \<and> collects (Some f) source ws final)"
  using assms
proof (rule Many_loop.raw_induct [where P = "\<lambda>f acc source r.
    \<forall>vs final. r = Success vs final \<longrightarrow> (\<exists>ws. vs = acc @ ws \<and> collects (Some f) source ws final)", rotated])
  fix loop :: "(Source \<Rightarrow> 'a ParseResult) \<Rightarrow> 'a list \<Rightarrow> Source \<Rightarrow> 'a list ParseResult option"
    and f acc source r
  assume IH: "\<And>f acc source r. loop f acc source = Some r \<Longrightarrow>
      \<forall>vs final. r = Success vs final \<longrightarrow> (\<exists>ws. vs = acc @ ws \<and> collects (Some f) source ws final)"
    and body: "(case f source of
        Failure \<Rightarrow> Some (Success acc source)
      | Success v next_source \<Rightarrow> loop f (acc @ [v]) next_source
      | Panicked msg \<Rightarrow> Some (Panicked msg)
      | Diverged \<Rightarrow> None) = Some r"
  show "\<forall>vs final. r = Success vs final \<longrightarrow> (\<exists>ws. vs = acc @ ws \<and> collects (Some f) source ws final)"
  proof (intro allI impI)
    fix vs final
    assume r: "r = Success vs final"
    show "\<exists>ws. vs = acc @ ws \<and> collects (Some f) source ws final"
    proof (cases "f source")
      case Failure
      with body r show ?thesis by (auto intro: collects.stop)
    next
      case (Success v n)
      with body have "loop f (acc @ [v]) n = Some r" by simp
      from IH [OF this] r obtain ws where "vs = (acc @ [v]) @ ws" "collects (Some f) n ws final"
        by blast
      with Success show ?thesis by (auto intro: collects.step)
    next
      case (Panicked m)
      with body r show ?thesis by auto
    next
      case Diverged
      with body show ?thesis by auto
    qed
  qed
qed

lemma collects_Many_loop_aux:
  "collects p source ws final \<Longrightarrow> p = Some f \<Longrightarrow>
   Many_loop f acc source = Some (Success (acc @ ws) final)"
proof (induction arbitrary: acc rule: collects.induct)
  case (stop source)
  then show ?case by (simp add: Many_loop.simps)
next
  case (step source v next_source vs final)
  from step(3) [OF step(4), of "acc @ [v]"] step(1,4) show ?case
    by (subst Many_loop.simps) simp
qed

lemma collects_Many_loop:
  "collects (Some f) source ws final \<Longrightarrow> Many_loop f acc source = Some (Success (acc @ ws) final)"
  by (simp add: collects_Many_loop_aux)

lemma collects_exists:
  assumes "\<And>s. in_text s \<Longrightarrow> Parse p s = Failure \<or>
             (\<exists>v s'. Parse p s = Success v s' \<and> follows s s' \<and> index s < index s')"
  shows "in_text source \<Longrightarrow> \<exists>vs final. collects p source vs final"
proof (induction "remaining source" arbitrary: source rule: less_induct)
  case less
  from assms [OF less(2)] show ?case
  proof
    assume "Parse p source = Failure"
    then show ?thesis by (blast intro: collects.stop)
  next
    assume "\<exists>v s'. Parse p source = Success v s' \<and> follows source s' \<and> index source < index s'"
    then obtain v s' where s': "Parse p source = Success v s'" "follows source s'" "index source < index s'"
      by blast
    with less(2) have "remaining s' < remaining source" "in_text s'"
      by (auto simp: remaining_def follows_def in_text_def)
    from less(1) [OF this] s' show ?thesis by (blast intro: collects.step)
  qed
qed

text \<open>
  Claim C8, as the code has it. \<open>Many p\<close> returns a success exactly when the run of \<open>p\<close>
  from the cursor reaches a failure of \<open>p\<close>, and then with the values collected and the
  cursor after the last success (for the nil parser: at once, with no value). It does
  so from every cursor inside its text when \<open>p\<close>, inside the text, either fails or succeeds
  having consumed at least one character. Without that the loop need not end: on a
  parser that never fails, such as \<open>Constant v\<close>, \<open>Many\<close> does not return.
\<close>

theorem Many_collects:
  "(Parse (Many p) source = Success vs next_source \<longleftrightarrow>
      (if p = None then vs = [] \<and> next_source = source else collects p source vs next_source))
   \<and> (in_text source \<and>
       (\<forall>s. in_text s \<longrightarrow> Parse p s = Failure \<or>
             (\<exists>v s'. Parse p s = Success v s' \<and> follows s s' \<and> index s < index s')) \<longrightarrow>
       (\<exists>vs next_source. Parse (Many p) source = Success vs next_source))"
proof (cases p)
  case None
  then show ?thesis by (auto simp: Many_def Many_Parse_def in_text_def)
next
  case (Some f)
  have iff: "Parse (Many p) source = Success vs next_source \<longleftrightarrow> collects p source vs next_source"
    using Many_loop_collects_aux [of f "[]" source] collects_Many_loop [of f source vs next_source "[]"]
    by (auto simp: Some Many_def Many_Parse_def split: option.splits)
  have "\<exists>vs next_source. Parse (Many p) source = Success vs next_source"
    if "in_text source" and "\<forall>s. in_text s \<longrightarrow> Parse p s = Failure \<or>
             (\<exists>v s'. Parse p s = Success v s' \<and> follows s s' \<and> index s < index s')"
  proof -
    from collects_exists [of p source] that obtain ws final where "collects p source ws final"
      by blast
    with collects_Many_loop [of f source ws final "[]"] show ?thesis
      by (auto simp: Some Many_def Many_Parse_def)
  qed
  with iff Some show ?thesis by auto
qed

lemma Constant_never_fails:
  assumes "Many_loop f acc source = Some r"
  shows "(\<forall>s. \<exists>v. f s = Success v s) \<longrightarrow> False"
  using assms
proof (rule Many_loop.raw_induct [where P = "\<lambda>f acc source r. (\<forall>s. \<exists>v. f s = Success v s) \<longrightarrow> False", rotated])
  fix loop :: "(Source \<Rightarrow> 'a ParseResult) \<Rightarrow> 'a list \<Rightarrow> Source \<Rightarrow> 'a list ParseResult option"
    and f acc source r
  assume IH: "\<And>f acc source r. loop f acc source = Some r \<Longrightarrow> (\<forall>s. \<exists>v. f s = Success v s) \<longrightarrow> False"
    and body: "(case f source of
        Failure \<Rightarrow> Some (Success acc source)
      | Success v next_source \<Rightarrow> loop f (acc @ [v]) next_source
      | Panicked msg \<Rightarrow> Some (Panicked msg)
      | Diverged \<Rightarrow> None) = Some r"
  show "(\<forall>s. \<exists>v. f s = Success v s) \<longrightarrow> False"
  proof
    assume always: "\<forall>s. \<exists>v. f s = Success v s"
    then obtain v where "f source = Success v source" by blast
    with body have "loop f (acc @ [v]) source = Some r" by simp
    from IH [OF this] always show False by blast
  qed
qed

theorem Many_Constant_counterexample:
  "Parse (Many (Constant ())) (NewSource '''' 0) = Diverged"
  using Constant_never_fails [of "Success ()" "[]" "NewSource '''' 0"]
  by (auto simp: Many_def Many_Parse_def Constant_def split: option.splits)


lemma match_here_pos: "consuming pat \<Longrightarrow> match_here pat prev s = Some n \<Longrightarrow> 0 < n"
  by (cases pat rule: consuming.cases; cases s) (auto split: if_splits)

lemma Regexp_consuming:
  assumes "consuming pat" and "in_text s"
  shows "Parse (Regexp pat) s = Failure \<or>
         (\<exists>v s'. Parse (Regexp pat) s = Success v s' \<and> follows s s' \<and> index s < index s')"
proof (cases "Match pat s")
  case Failure
  then show ?thesis by (simp add: Regexp_def)
next
  case (Success v s')
  from Success have "index s < int (length (str s))" "0 \<le> index s"
    by (auto dest: Match_Success)
  with Success obtain n where n: "match_here pat None (drop (nat (index s)) (str s)) = Some n"
    and s': "s' = NewSource (str s) (index s + int n)"
    by (auto simp: Match_def split: option.splits if_splits)
  from match_here_pos [OF assms(1) n] match_here_le [OF n] s' assms(2) Success
  show ?thesis by (auto simp: Regexp_def follows_def NewSource_def in_text_def)
next
  case (Panicked m)
  with assms(2) show ?thesis by (auto simp: Match_def in_text_def split: option.splits if_splits)
next
  case Diverged
  then show ?thesis by (auto simp: Match_def split: option.splits if_splits)
qed

theorem Many_collects_witness:
  "(\<exists>vs next_source.
      Parse (Many (Regexp [AtLeastOnce (Single CHR ''a'')])) (NewSource ''aab'' 0) =
        Success vs next_source)
   \<and> collects (Regexp [AtLeastOnce (Single CHR ''a'')]) (NewSource ''aab'' 0) [''aa'']
        (NewSource ''aab'' 2)"
proof -
  let ?pat = "[AtLeastOnce (Single CHR ''a'')]"
  let ?src = "NewSource ''aab'' 0"
  have src: "in_text ?src"
    by (simp add: in_text_def NewSource_def)
  have progress: "\<forall>s. in_text s \<longrightarrow> Parse (Regexp ?pat) s = Failure \<or>
             (\<exists>v s'. Parse (Regexp ?pat) s = Success v s' \<and> follows s s' \<and> index s < index s')"
    by (simp add: Regexp_consuming)
  have some: "Regexp ?pat \<noteq> None"
    by (simp add: Regexp_def)
  note run = Many_collects [of "Regexp ?pat" ?src "[''aa'']" "NewSource ''aab'' 2"]
  from run [THEN conjunct2] src progress
  have "\<exists>vs next_source. Parse (Many (Regexp ?pat)) ?src = Success vs next_source"
    by blast
  moreover from run [THEN conjunct1] some Many_run_example
  have "collects (Regexp ?pat) ?src [''aa''] (NewSource ''aab'' 2)"
    by simp
  ultimately show ?thesis by (rule conjI)
qed

text \<open>
  Claim C3, as the code has it. \<^verbatim>\<open>ParseStringToCompletion\<close> returns the value exactly when
  the parser, run from index 0 of the text, succeeds with a cursor at the end of the
  cursor's text; for a parser that advances (every parser of the kernel and the grammar)
  that text is the input and the index is its length. With a nil \<^verbatim>\<open>Parse\<close> function and
  with no result at all it panics with a fixed message each, which reports neither an
  index nor a tail. With a result whose cursor is short of the end it panics with the
  message that reports the index and the rest of the text.
\<close>

theorem ParseStringToCompletion_cases:
  "(ParseStringToCompletion p s = Returned v \<longleftrightarrow>
      (\<exists>source. Parse p (NewSource s 0) = Success v source \<and>
                index source = int (length (str source))))
   \<and> (advances p \<longrightarrow>
        (ParseStringToCompletion p s = Returned v \<longleftrightarrow>
           (\<exists>source. Parse p (NewSource s 0) = Success v source \<and> index source = int (length s))))
   \<and> (p = None \<longrightarrow>
        ParseStringToCompletion p s = Panic ''Parse error: parser has nil Parse function'')
   \<and> (Parse p (NewSource s 0) = Failure \<longrightarrow>
        ParseStringToCompletion p s = Panic ''Parse error: could not parse anything at all'')
   \<and> (Parse p (NewSource s 0) = Success v source \<and> 0 \<le> index source \<and>
        index source < int (length (str source)) \<longrightarrow>
        ParseStringToCompletion p s =
          Panic (''Parse error at index '' @ Sprintf_d (index source) @ '', remaining: '' @
                 drop (nat (index source)) (str source)))"
proof -
  have general: "ParseStringToCompletion p s = Returned v \<longleftrightarrow>
      (\<exists>source. Parse p (NewSource s 0) = Success v source \<and>
                index source = int (length (str source)))"
    by (auto simp: ParseStringToCompletion_def Parse_def split: option.splits ParseResult.splits)
  have same_text: "str source = s" if "advances p" and "Parse p (NewSource s 0) = Success v source" for source
    using advancesD(1) [OF that(1) _ that(2)] by (simp add: in_text_def NewSource_def)
  have kernel: "ParseStringToCompletion p s = Returned v \<longleftrightarrow>
           (\<exists>source. Parse p (NewSource s 0) = Success v source \<and> index source = int (length s))"
    if "advances p"
    using general same_text [OF that] by auto
  have nil: "ParseStringToCompletion p s = Panic ''Parse error: parser has nil Parse function''"
    if "p = None"
    using that by (simp add: ParseStringToCompletion_def)
  have no_result: "ParseStringToCompletion p s = Panic ''Parse error: could not parse anything at all''"
    if "Parse p (NewSource s 0) = Failure"
    using that by (auto simp: ParseStringToCompletion_def Parse_def split: option.splits)
  have short: "ParseStringToCompletion p s =
          Panic (''Parse error at index '' @ Sprintf_d (index source) @ '', remaining: '' @
                 drop (nat (index source)) (str source))"
    if "Parse p (NewSource s 0) = Success v source \<and> 0 \<le> index source \<and>
        index source < int (length (str source))"
    using that by (auto simp: ParseStringToCompletion_def Parse_def split: option.splits)
  show ?thesis
    apply (rule conjI, rule general)
    apply (rule conjI, rule impI, erule kernel)
    apply (rule conjI, rule impI, erule nil)
    apply (rule conjI, rule impI, erule no_result)
    apply (rule impI, erule short)
    done
qed

lemma expression_run_example:
  "Parse expression (NewSource ''1 2'' 0) = Success (Number 1) (NewSource ''1 2'' 2)"
  by code_simp

lemma expression_fails_example:
  "Parse expression (NewSource '')'' 0) = Failure"
  by code_simp

lemma expression_complete_example:
  "Parse expression (NewSource ''1 + 2'' 0) = Success (Add (Number 1) (Number 2)) (NewSource ''1 + 2'' 5)"
  by code_simp

theorem ParseStringToCompletion_cases_witness:
  "ParseStringToCompletion expression ''1 2'' = Panic ''Parse error at index 2, remaining: 2''
   \<and> ParseStringToCompletion expression '')'' = Panic ''Parse error: could not parse anything at all''
   \<and> ParseStringToCompletion expression ''1 + 2'' = Returned (Add (Number 1) (Number 2))
   \<and> ParseStringToCompletion (None :: AST Parser) ''1'' =
       Panic ''Parse error: parser has nil Parse function''"
proof -
  have short: "Parse expression (NewSource ''1 2'' 0) = Success (Number 1) (NewSource ''1 2'' 2) \<and>
     0 \<le> index (NewSource ''1 2'' 2) \<and> index (NewSource ''1 2'' 2) < int (length (str (NewSource ''1 2'' 2)))"
    using expression_run_example by (simp add: NewSource_def)
  from ParseStringToCompletion_cases [of expression "''1 2''" "Number 1" "NewSource ''1 2'' 2",
      THEN conjunct2, THEN conjunct2, THEN conjunct2, THEN conjunct2] short
  have "ParseStringToCompletion expression ''1 2'' =
          Panic (''Parse error at index '' @ Sprintf_d (index (NewSource ''1 2'' 2)) @ '', remaining: '' @
                 drop (nat (index (NewSource ''1 2'' 2))) (str (NewSource ''1 2'' 2)))"
    by (rule mp)
  then have case_short: "ParseStringToCompletion expression ''1 2'' =
      Panic ''Parse error at index 2, remaining: 2''"
    by (simp add: NewSource_def Sprintf_d_def decimal.simps)
  from ParseStringToCompletion_cases [of expression "'')''", THEN conjunct2, THEN conjunct2,
      THEN conjunct2, THEN conjunct1] expression_fails_example
  have case_none: "ParseStringToCompletion expression '')'' =
      Panic ''Parse error: could not parse anything at all''"
    by (rule mp)
  have "\<exists>source. Parse expression (NewSource ''1 + 2'' 0) = Success (Add (Number 1) (Number 2)) source \<and>
      index source = int (length ''1 + 2'')"
    using expression_complete_example by (simp add: NewSource_def)
  with ParseStringToCompletion_cases [of expression "''1 + 2''" "Add (Number 1) (Number 2)",
      THEN conjunct2, THEN conjunct1, THEN mp, OF advances_expression]
  have case_complete: "ParseStringToCompletion expression ''1 + 2'' = Returned (Add (Number 1) (Number 2))"
    by (rule iffD2)
  from ParseStringToCompletion_cases [of "None :: AST Parser" "''1''", THEN conjunct2, THEN conjunct2,
      THEN conjunct1] refl
  have case_nil: "ParseStringToCompletion (None :: AST Parser) ''1'' =
       Panic ''Parse error: parser has nil Parse function''"
    by (rule mp)
  from case_short case_none case_complete case_nil show ?thesis
    by (intro conjI)
qed

theorem no_result_diagnostic_counterexample:
  "ParseStringToCompletion expression ''+'' = Panic ''Parse error: could not parse anything at all''"
  by code_simp


section \<open>The recursion of the grammar\<close>

text \<open>
  \<open>expression\<close> and \<open>statement\<close> were defined with a bound on the nesting of calls. The bound
  is never reached: each of them satisfies the equation of the source, in which the
  function literal calls the parser built by \<open>getComparisonParser\<close> (\<open>getStatementParser\<close>)
  from the package variable itself. The nested calls come after a token, which consumes
  at least one character, so they start from cursors with fewer characters left.
\<close>

lemma shrinksD: "shrinks p \<Longrightarrow> Parse p source = Success v n \<Longrightarrow> remaining n \<le> remaining source"
  unfolding shrinks_def by blast

lemma consumesD: "consumes p \<Longrightarrow> Parse p source = Success v n \<Longrightarrow> remaining n < remaining source"
  unfolding consumes_def by blast

lemma consumes_shrinks: "consumes p \<Longrightarrow> shrinks p"
  unfolding consumes_def shrinks_def by (meson less_imp_le)

lemma Match_remaining:
  assumes "Match pat source = Success v n"
  shows "remaining n \<le> remaining source" "consuming pat \<Longrightarrow> remaining n < remaining source"
proof -
  from assms have range: "index source < int (length (str source))" "0 \<le> index source"
    by (auto dest: Match_Success)
  with assms obtain k where k: "match_here pat None (drop (nat (index source)) (str source)) = Some k"
    and n: "n = NewSource (str source) (index source + int k)"
    by (auto simp: Match_def split: option.splits if_splits)
  from match_here_le [OF k] n range show "remaining n \<le> remaining source"
    by (simp add: remaining_def NewSource_def)
  assume "consuming pat"
  from match_here_pos [OF this k] match_here_le [OF k] n range show "remaining n < remaining source"
    by (simp add: remaining_def NewSource_def)
qed

lemma shrinks_Regexp [shrinks_intros]: "shrinks (Regexp pat)"
  unfolding shrinks_def by (auto simp: Regexp_def dest: Match_remaining)

lemma consumes_Regexp: "consuming pat \<Longrightarrow> consumes (Regexp pat)"
  unfolding consumes_def by (auto simp: Regexp_def dest: Match_remaining)

lemma shrinks_Constant [shrinks_intros]: "shrinks (Constant v)"
  unfolding shrinks_def by (auto simp: Constant_def)

lemma shrinks_panicking [shrinks_intros]: "shrinks (Some (\<lambda>source. Panicked msg))"
  unfolding shrinks_def by simp

lemma shrinks_Or_Nil [shrinks_intros]: "shrinks (Or [])"
  unfolding shrinks_def by (simp add: Or_def)

lemma shrinks_Or_Cons [shrinks_intros]: "shrinks p \<Longrightarrow> shrinks (Or ps) \<Longrightarrow> shrinks (Or (p # ps))"
  unfolding shrinks_def by (auto simp: Or_def split: option.splits ParseResult.splits)

lemma Many_loop_shrinks_aux:
  assumes "Many_loop f acc source = Some r"
  shows "shrinks (Some f) \<longrightarrow>
         (\<forall>vs next_source. r = Success vs next_source \<longrightarrow> remaining next_source \<le> remaining source)"
  using assms
proof (rule Many_loop.raw_induct [where P = "\<lambda>f acc source r. shrinks (Some f) \<longrightarrow>
         (\<forall>vs next_source. r = Success vs next_source \<longrightarrow> remaining next_source \<le> remaining source)",
      rotated])
  fix loop :: "(Source \<Rightarrow> 'a ParseResult) \<Rightarrow> 'a list \<Rightarrow> Source \<Rightarrow> 'a list ParseResult option"
    and f acc source r
  assume IH: "\<And>f acc source r. loop f acc source = Some r \<Longrightarrow> shrinks (Some f) \<longrightarrow>
         (\<forall>vs next_source. r = Success vs next_source \<longrightarrow> remaining next_source \<le> remaining source)"
    and body: "(case f source of
        Failure \<Rightarrow> Some (Success acc source)
      | Success v next_source \<Rightarrow> loop f (acc @ [v]) next_source
      | Panicked msg \<Rightarrow> Some (Panicked msg)
      | Diverged \<Rightarrow> None) = Some r"
  show "shrinks (Some f) \<longrightarrow>
         (\<forall>vs next_source. r = Success vs next_source \<longrightarrow> remaining next_source \<le> remaining source)"
  proof (intro impI allI)
    fix vs next_source
    assume f: "shrinks (Some f)" and r: "r = Success vs next_source"
    show "remaining next_source \<le> remaining source"
    proof (cases "f source")
      case Failure
      with body r show ?thesis by auto
    next
      case (Success v n)
      with f have n: "remaining n \<le> remaining source"
        by (auto dest: shrinksD)
      from body Success have "loop f (acc @ [v]) n = Some r" by simp
      from IH [OF this] f r have "remaining next_source \<le> remaining n" by blast
      with n show ?thesis by simp
    next
      case (Panicked m)
      with body r show ?thesis by auto
    next
      case Diverged
      with body show ?thesis by auto
    qed
  qed
qed

lemma shrinks_Many [shrinks_intros]: "shrinks p \<Longrightarrow> shrinks (Many p)"
  unfolding shrinks_def [of "Many p"]
  using Many_loop_shrinks_aux
  by (fastforce simp: Many_def Many_Parse_def split: option.splits)

lemma shrinks_Maybe [shrinks_intros]: "shrinks p \<Longrightarrow> shrinks (Maybe p)"
  unfolding shrinks_def
  by (auto simp: Maybe_def Maybe_Parse_def Parse_def split: option.splits ParseResult.splits)

lemma shrinks_Bind [shrinks_intros]:
  assumes "shrinks p" and "\<And>v. shrinks (k v)"
  shows "shrinks (Bind p k)"
  unfolding shrinks_def
proof (intro allI impI)
  fix source v next_source
  assume "Parse (Bind p k) source = Success v next_source"
  then obtain u m where "Parse p source = Success u m" "Parse (k u) m = Success v next_source"
    by (blast dest: Bind_Success)
  with shrinksD [OF assms(1)] shrinksD [OF assms(2)]
  show "remaining next_source \<le> remaining source"
    by (meson order_trans)
qed

lemma consumes_Bind:
  assumes "consumes p" and "\<And>v. shrinks (k v)"
  shows "consumes (Bind p k)"
  unfolding consumes_def
proof (intro allI impI)
  fix source v next_source
  assume "Parse (Bind p k) source = Success v next_source"
  then obtain u m where "Parse p source = Success u m" "Parse (k u) m = Success v next_source"
    by (blast dest: Bind_Success)
  with consumesD [OF assms(1)] shrinksD [OF assms(2)]
  show "remaining next_source < remaining source"
    by (meson le_less_trans)
qed

lemma shrinks_And [shrinks_intros]: "shrinks p \<Longrightarrow> shrinks q \<Longrightarrow> shrinks (And p q)"
  by (simp add: And_def shrinks_Bind)

lemma consumes_And: "consumes p \<Longrightarrow> shrinks q \<Longrightarrow> consumes (And p q)"
  by (simp add: And_def consumes_Bind)

lemma shrinks_Map [shrinks_intros]: "shrinks p \<Longrightarrow> shrinks (Map p g)"
  by (simp add: Map_def shrinks_Bind shrinks_Constant)

lemma consumes_Map: "consumes p \<Longrightarrow> consumes (Map p g)"
  by (simp add: Map_def consumes_Bind shrinks_Constant)

lemma shrinks_if [shrinks_intros]: "shrinks p \<Longrightarrow> shrinks q \<Longrightarrow> shrinks (if c then p else q)"
  by simp

lemma shrinks_case_list [shrinks_intros]:
  "shrinks p \<Longrightarrow> (\<And>x xs. shrinks (q x xs)) \<Longrightarrow> shrinks (case l of [] \<Rightarrow> p | x # xs \<Rightarrow> q x xs)"
  by (cases l) simp_all

lemma shrinks_ignored [shrinks_intros]: "shrinks ignored"
  unfolding ignored_def whitespace_def comments_def by (intro shrinks_intros)

lemma consumes_token: "consuming pat \<Longrightarrow> consumes (token pat)"
  unfolding token_def by (intro consumes_Bind consumes_Regexp shrinks_intros)

lemma consumes_tokens:
  "consumes FUNCTION" "consumes IF" "consumes WHILE" "consumes ELSE" "consumes RETURN" "consumes VAR"
  "consumes COMMA" "consumes SEMICOLON" "consumes LEFT_PAREN" "consumes RIGHT_PAREN"
  "consumes LEFT_BRACE" "consumes RIGHT_BRACE" "consumes NUMBER" "consumes ID" "consumes idParser"
  "consumes NOT" "consumes EQUAL" "consumes NOT_EQUAL" "consumes PLUS" "consumes MINUS"
  "consumes STAR" "consumes SLASH" "consumes ASSIGN_OP"
  unfolding FUNCTION_def IF_def WHILE_def ELSE_def RETURN_def VAR_def COMMA_def SEMICOLON_def
    LEFT_PAREN_def RIGHT_PAREN_def LEFT_BRACE_def RIGHT_BRACE_def NUMBER_def ID_def idParser_def
    NOT_def EQUAL_def NOT_EQUAL_def PLUS_def MINUS_def STAR_def SLASH_def ASSIGN_OP_def
  by (simp_all add: consumes_Map consumes_token literal_def)

lemmas shrinks_tokens [shrinks_intros] = consumes_tokens [THEN consumes_shrinks]


lemma agree_below_refl: "agree_below k p p"
  unfolding agree_below_def by simp

lemma agree_below_Bind:
  assumes "agree_below k p p'" and "shrinks p" and "\<And>v. agree_below k (f v) (f' v)"
  shows "agree_below k (Bind p f) (Bind p' f')"
  unfolding agree_below_def
proof (intro conjI allI impI)
  show "(Bind p f = None) = (Bind p' f' = None)" by (simp add: Bind_def)
next
  fix source assume k: "remaining source < k"
  with assms(1) have same: "Parse p source = Parse p' source"
    unfolding agree_below_def by blast
  show "Parse (Bind p f) source = Parse (Bind p' f') source"
  proof (cases "Parse p source")
    case (Success v n)
    with shrinksD [OF assms(2)] k have "remaining n < k" by fastforce
    with assms(3) [of v] have "(case f v of None \<Rightarrow> Failure | Some g \<Rightarrow> g n) =
        (case f' v of None \<Rightarrow> Failure | Some g \<Rightarrow> g n)"
      unfolding agree_below_def by (auto simp: Parse_def split: option.splits)
    with Success same show ?thesis by (simp add: Bind_def Bind_Parse_def)
  qed (use same in \<open>simp_all add: Bind_def Bind_Parse_def\<close>)
qed

lemma agree_below_Bind_consumes:
  assumes "consumes p" and "\<And>v. agree_below k (f v) (f' v)"
  shows "agree_below (Suc k) (Bind p f) (Bind p f')"
  unfolding agree_below_def
proof (intro conjI allI impI)
  show "(Bind p f = None) = (Bind p f' = None)" by (simp add: Bind_def)
next
  fix source assume k: "remaining source < Suc k"
  show "Parse (Bind p f) source = Parse (Bind p f') source"
  proof (cases "Parse p source")
    case (Success v n)
    with consumesD [OF assms(1)] k have "remaining n < k" by fastforce
    with assms(2) [of v] have "(case f v of None \<Rightarrow> Failure | Some g \<Rightarrow> g n) =
        (case f' v of None \<Rightarrow> Failure | Some g \<Rightarrow> g n)"
      unfolding agree_below_def by (auto simp: Parse_def split: option.splits)
    with Success show ?thesis by (simp add: Bind_def Bind_Parse_def)
  qed (simp_all add: Bind_def Bind_Parse_def)
qed

lemma agree_below_And:
  "agree_below k p p' \<Longrightarrow> shrinks p \<Longrightarrow> agree_below k q q' \<Longrightarrow> agree_below k (And p q) (And p' q')"
  by (simp add: And_def agree_below_Bind)

lemma agree_below_And_consumes:
  "consumes p \<Longrightarrow> agree_below k q q' \<Longrightarrow> agree_below (Suc k) (And p q) (And p q')"
  by (simp add: And_def agree_below_Bind_consumes)

lemma agree_below_Map:
  "agree_below k p p' \<Longrightarrow> shrinks p \<Longrightarrow> agree_below k (Map p g) (Map p' g)"
  by (simp add: Map_def agree_below_Bind agree_below_refl)

lemma agree_below_Or_Cons:
  assumes "agree_below k p p'" and "agree_below k (Or ps) (Or ps')"
  shows "agree_below k (Or (p # ps)) (Or (p' # ps'))"
  using assms unfolding agree_below_def
  by (auto simp: Or_def Parse_def split: option.splits ParseResult.splits)

lemma Many_loop_agree_aux:
  assumes "Many_loop f acc source = Some r"
  shows "shrinks (Some f) \<longrightarrow> (\<forall>s. remaining s < k \<longrightarrow> f s = g s) \<longrightarrow> remaining source < k \<longrightarrow>
         Many_loop g acc source = Some r"
  using assms
proof (rule Many_loop.raw_induct [where P = "\<lambda>f acc source r. shrinks (Some f) \<longrightarrow>
         (\<forall>s. remaining s < k \<longrightarrow> f s = g s) \<longrightarrow> remaining source < k \<longrightarrow>
         Many_loop g acc source = Some r", rotated])
  fix loop :: "(Source \<Rightarrow> 'a ParseResult) \<Rightarrow> 'a list \<Rightarrow> Source \<Rightarrow> 'a list ParseResult option"
    and f acc source r
  assume IH: "\<And>f acc source r. loop f acc source = Some r \<Longrightarrow> shrinks (Some f) \<longrightarrow>
         (\<forall>s. remaining s < k \<longrightarrow> f s = g s) \<longrightarrow> remaining source < k \<longrightarrow>
         Many_loop g acc source = Some r"
    and body: "(case f source of
        Failure \<Rightarrow> Some (Success acc source)
      | Success v next_source \<Rightarrow> loop f (acc @ [v]) next_source
      | Panicked msg \<Rightarrow> Some (Panicked msg)
      | Diverged \<Rightarrow> None) = Some r"
  show "shrinks (Some f) \<longrightarrow> (\<forall>s. remaining s < k \<longrightarrow> f s = g s) \<longrightarrow> remaining source < k \<longrightarrow>
         Many_loop g acc source = Some r"
  proof (intro impI)
    assume f: "shrinks (Some f)" and same: "\<forall>s. remaining s < k \<longrightarrow> f s = g s"
      and k: "remaining source < k"
    then have here: "g source = f source" by simp
    show "Many_loop g acc source = Some r"
    proof (cases "f source")
      case (Success v n)
      with f k have n: "remaining n < k"
        by (fastforce dest: shrinksD)
      from body Success have "loop f (acc @ [v]) n = Some r" by simp
      from IH [OF this] f same n have "Many_loop g (acc @ [v]) n = Some r" by blast
      with Success here show ?thesis by (subst Many_loop.simps) simp
    qed (use body here in \<open>subst Many_loop.simps, simp\<close>)+
  qed
qed

lemma agree_below_Many:
  assumes "agree_below k p q" and "shrinks p" and "shrinks q"
  shows "agree_below k (Many p) (Many q)"
  unfolding agree_below_def
proof (intro conjI allI impI)
  show "(Many p = None) = (Many q = None)" by (simp add: Many_def)
next
  fix source assume k: "remaining source < k"
  show "Parse (Many p) source = Parse (Many q) source"
  proof (cases p)
    case None
    with assms(1) show ?thesis by (simp add: agree_below_def Many_def Many_Parse_def)
  next
    case (Some f)
    with assms(1) obtain g where g: "q = Some g" by (auto simp: agree_below_def)
    from assms(1) Some g have same: "\<forall>s. remaining s < k \<longrightarrow> f s = g s" "\<forall>s. remaining s < k \<longrightarrow> g s = f s"
      by (simp_all add: agree_below_def)
    have "Many_loop f [] source = Many_loop g [] source"
    proof (cases "Many_loop f [] source")
      case (Some r)
      with Many_loop_agree_aux [OF Some, of k g] assms(2) same(1) k \<open>p = Some f\<close> show ?thesis by simp
    next
      case None
      show ?thesis
      proof (cases "Many_loop g [] source")
        case (Some r)
        with Many_loop_agree_aux [OF Some, of k f] assms(3) same(2) k g None show ?thesis by simp
      qed (simp add: None)
    qed
    with Some g show ?thesis by (simp add: Many_def Many_Parse_def)
  qed
qed

lemma agree_below_Suc: "agree_below (Suc k) p q \<Longrightarrow> agree_below k p q"
  unfolding agree_below_def by auto


lemmas agree_same_level = agree_below_refl agree_below_Or_Cons agree_below_Bind agree_below_And
  agree_below_Map agree_below_Many

lemma shrinks_infix_parser [shrinks_intros]:
  "shrinks operatOr \<Longrightarrow> shrinks termParser \<Longrightarrow> shrinks (infix_parser operatOr termParser)"
  unfolding infix_parser_def by (intro shrinks_intros)

lemma shrinks_expression_parts:
  assumes "shrinks e"
  shows "shrinks (args e)" "shrinks (call e)" "shrinks (atom e)" "shrinks (unary e)"
    "shrinks (product_parser e)" "shrinks (sum_parser e)" "shrinks (getComparisonParser e)"
  unfolding getComparisonParser_def sum_parser_def product_parser_def unary_def atom_def call_def
    args_def
  by (intro shrinks_intros assms)+

lemma shrinks_expression_at: "shrinks (Some (expression_at depth))"
proof (induction depth)
  case 0
  show ?case by (simp add: shrinks_def)
next
  case (Suc depth)
  from shrinks_expression_parts(7) [OF Suc] show ?case
    unfolding shrinks_def by simp
qed

lemma shrinks_expression [shrinks_intros]: "shrinks expression"
  unfolding shrinks_def
proof (intro allI impI)
  fix source v next_source
  assume "Parse expression source = Success v next_source"
  then have "Parse (Some (expression_at (Suc (remaining source)))) source = Success v next_source"
    by (simp add: expression_def del: expression_at.simps)
  from shrinksD [OF shrinks_expression_at this]
  show "remaining next_source \<le> remaining source" .
qed

lemma agree_below_infix_parser:
  assumes "agree_below n t t'" and "shrinks t" and "shrinks t'" and "shrinks operatOr"
  shows "agree_below n (infix_parser operatOr t) (infix_parser operatOr t')"
  unfolding infix_parser_def
  by (intro agree_same_level shrinks_intros assms)

lemma agree_below_args:
  assumes "agree_below k e e'" and "shrinks e" and "shrinks e'"
  shows "agree_below k (args e) (args e')"
  unfolding args_def
  by (intro agree_same_level shrinks_intros assms)

lemma agree_below_call:
  assumes "agree_below k e e'" and "shrinks e" and "shrinks e'"
  shows "agree_below (Suc k) (call e) (call e')"
  unfolding call_def
  by (rule agree_below_Bind_consumes [OF consumes_tokens(14)])
     (intro agree_same_level shrinks_intros agree_below_args shrinks_expression_parts assms)

lemma agree_below_atom:
  assumes "agree_below k e e'" and "shrinks e" and "shrinks e'"
  shows "agree_below (Suc k) (atom e) (atom e')"
  unfolding atom_def
  by (intro agree_below_refl agree_below_Or_Cons agree_below_call agree_below_Bind
      agree_below_And_consumes consumes_tokens shrinks_intros assms)

lemma agree_below_getComparisonParser:
  assumes "agree_below k e e'" and "shrinks e" and "shrinks e'"
  shows "agree_below (Suc k) (getComparisonParser e) (getComparisonParser e')"
proof -
  have "agree_below (Suc k) (unary e) (unary e')"
    unfolding unary_def
    by (intro agree_same_level agree_below_atom shrinks_intros shrinks_expression_parts assms)
  then have "agree_below (Suc k) (product_parser e) (product_parser e')"
    unfolding product_parser_def
    by (intro agree_below_infix_parser shrinks_intros shrinks_expression_parts assms)
  then have "agree_below (Suc k) (sum_parser e) (sum_parser e')"
    unfolding sum_parser_def
    by (intro agree_below_infix_parser shrinks_intros shrinks_expression_parts assms)
  then show ?thesis
    unfolding getComparisonParser_def
    by (intro agree_below_infix_parser shrinks_intros shrinks_expression_parts assms)
qed

lemma expression_at_agree:
  "k \<le> n \<Longrightarrow> k \<le> m \<Longrightarrow> agree_below k (Some (expression_at n)) (Some (expression_at m))"
proof (induction k arbitrary: n m)
  case 0
  show ?case by (simp add: agree_below_def)
next
  case (Suc k)
  then obtain n' m' where nm: "n = Suc n'" "m = Suc m'" "k \<le> n'" "k \<le> m'"
    by (metis Suc_le_D Suc_le_mono)
  from agree_below_getComparisonParser [OF Suc.IH [OF nm(3,4)] shrinks_expression_at shrinks_expression_at]
  show ?case unfolding agree_below_def nm by simp
qed

lemma expression_agree: "agree_below k expression (Some (expression_at k))"
  unfolding agree_below_def
proof (intro conjI allI impI)
  show "(expression = None) = (Some (expression_at k) = None)" by (simp add: expression_def)
next
  fix source assume "remaining source < k"
  with expression_at_agree [of "Suc (remaining source)" "Suc (remaining source)" k]
  show "Parse expression source = Parse (Some (expression_at k)) source"
    unfolding agree_below_def by (simp add: expression_def del: expression_at.simps)
qed

text \<open>The equation of \<^verbatim>\<open>expression\<close> in the source.\<close>

theorem expression_unfold: "Parse expression source = Parse (getComparisonParser expression) source"
proof -
  from agree_below_getComparisonParser [OF expression_agree shrinks_expression shrinks_expression_at,
      of "remaining source"]
  have "Parse (getComparisonParser expression) source =
        Parse (getComparisonParser (Some (expression_at (remaining source)))) source"
    unfolding agree_below_def by simp
  then show ?thesis by (simp add: expression_def)
qed


lemma shrinks_parameters [shrinks_intros]: "shrinks parameters"
  unfolding parameters_def by (intro shrinks_intros)

lemma shrinks_statement_parts:
  assumes "shrinks st"
  shows "shrinks returnStatement" "shrinks expressionStatement" "shrinks (ifStatement st)"
    "shrinks (whileStatement st)" "shrinks varStatement" "shrinks assignmentStatement"
    "shrinks (blockStatement st)" "shrinks (functionStatement st)"
    "shrinks (getStatementParser st)"
  unfolding getStatementParser_def returnStatement_def functionStatement_def ifStatement_def
    whileStatement_def varStatement_def assignmentStatement_def blockStatement_def
    expressionStatement_def
  by (intro shrinks_intros assms)+

lemma shrinks_statement_at: "shrinks (Some (statement_at depth))"
proof (induction depth)
  case 0
  show ?case by (simp add: shrinks_def)
next
  case (Suc depth)
  from shrinks_statement_parts(9) [OF Suc] show ?case
    unfolding shrinks_def by simp
qed

lemma shrinks_statement [shrinks_intros]: "shrinks statement"
  unfolding shrinks_def
proof (intro allI impI)
  fix source v next_source
  assume "Parse statement source = Success v next_source"
  then have "Parse (Some (statement_at (Suc (remaining source)))) source = Success v next_source"
    by (simp add: statement_def del: statement_at.simps)
  from shrinksD [OF shrinks_statement_at this]
  show "remaining next_source \<le> remaining source" .
qed

lemma agree_below_getStatementParser:
  assumes "agree_below k st st'" and "shrinks st" and "shrinks st'"
  shows "agree_below (Suc k) (getStatementParser st) (getStatementParser st')"
proof -
  have block: "agree_below k (blockStatement st) (blockStatement st')"
    unfolding blockStatement_def
    by (intro agree_same_level shrinks_intros assms)
  have block_top: "agree_below (Suc k) (blockStatement st) (blockStatement st')"
    unfolding blockStatement_def
    by (intro agree_below_refl agree_below_Bind agree_below_And_consumes agree_below_Many
        consumes_tokens shrinks_intros assms)
  have named: "agree_below (Suc k) (functionStatement st) (functionStatement st')"
    unfolding functionStatement_def
    by (rule agree_below_Bind_consumes [OF consumes_And [OF consumes_tokens(1)]])
       (intro agree_same_level shrinks_intros shrinks_statement_parts block assms)+
  have conditional: "agree_below (Suc k) (ifStatement st) (ifStatement st')"
    unfolding ifStatement_def
    by (rule agree_below_Bind_consumes [OF consumes_And [OF consumes_And [OF consumes_tokens(2)]]])
       (intro agree_same_level shrinks_intros assms)+
  have loop: "agree_below (Suc k) (whileStatement st) (whileStatement st')"
    unfolding whileStatement_def
    by (rule agree_below_Bind_consumes [OF consumes_And [OF consumes_And [OF consumes_tokens(3)]]])
       (intro agree_same_level shrinks_intros assms)+
  show ?thesis
    unfolding getStatementParser_def
    by (intro agree_below_Or_Cons agree_below_refl named conditional loop block_top)
qed

lemma statement_at_agree:
  "k \<le> n \<Longrightarrow> k \<le> m \<Longrightarrow> agree_below k (Some (statement_at n)) (Some (statement_at m))"
proof (induction k arbitrary: n m)
  case 0
  show ?case by (simp add: agree_below_def)
next
  case (Suc k)
  then obtain n' m' where nm: "n = Suc n'" "m = Suc m'" "k \<le> n'" "k \<le> m'"
    by (metis Suc_le_D Suc_le_mono)
  from agree_below_getStatementParser [OF Suc.IH [OF nm(3,4)] shrinks_statement_at shrinks_statement_at]
  show ?case unfolding agree_below_def nm by simp
qed

lemma statement_agree: "agree_below k statement (Some (statement_at k))"
  unfolding agree_below_def
proof (intro conjI allI impI)
  show "(statement = None) = (Some (statement_at k) = None)" by (simp add: statement_def)
next
  fix source assume "remaining source < k"
  with statement_at_agree [of "Suc (remaining source)" "Suc (remaining source)" k]
  show "Parse statement source = Parse (Some (statement_at k)) source"
    unfolding agree_below_def by (simp add: statement_def del: statement_at.simps)
qed

text \<open>The equation of \<^verbatim>\<open>statement\<close> in the source.\<close>

theorem statement_unfold: "Parse statement source = Parse (getStatementParser statement) source"
proof -
  from agree_below_getStatementParser [OF statement_agree shrinks_statement shrinks_statement_at,
      of "remaining source"]
  have "Parse (getStatementParser statement) source =
        Parse (getStatementParser (Some (statement_at (remaining source)))) source"
    unfolding agree_below_def by simp
  then show ?thesis by (simp add: statement_def)
qed


section \<open>Properties of the grammar and of the whole pipeline\<close>

lemma precedence_sum_product:
  "ParseStringToCompletion expression ''1 + 2 * 3'' =
     Returned (Add (Number 1) (Multiply (Number 2) (Number 3)))"
  by code_simp

lemma precedence_product_sum:
  "ParseStringToCompletion expression ''1 * 2 + 3'' =
     Returned (Add (Multiply (Number 1) (Number 2)) (Number 3))"
  by code_simp

lemma left_associative_subtract:
  "ParseStringToCompletion expression ''1 - 2 - 3'' =
     Returned (Subtract (Subtract (Number 1) (Number 2)) (Number 3))"
  by code_simp

lemma left_associative_equal:
  "ParseStringToCompletion expression ''1 == 2 == 3'' =
     Returned (Equal (Equal (Number 1) (Number 2)) (Number 3))"
  by code_simp

text \<open>
  Claim C1. \<open>getComparisonParser\<close> is three nested applications of the infix combinator,
  comparison over sum over product, each a left fold of the operators over the terms.
  The four inputs of the claim parse, to completion, to the trees it names.
\<close>

theorem expression_precedence:
  "getComparisonParser e =
     infix_parser (Or [EQUAL, NOT_EQUAL])
       (infix_parser (Or [PLUS, MINUS]) (infix_parser (Or [STAR, SLASH]) (unary e)))
   \<and> ParseStringToCompletion expression ''1 + 2 * 3'' =
       Returned (Add (Number 1) (Multiply (Number 2) (Number 3)))
   \<and> ParseStringToCompletion expression ''1 * 2 + 3'' =
       Returned (Add (Multiply (Number 1) (Number 2)) (Number 3))
   \<and> ParseStringToCompletion expression ''1 - 2 - 3'' =
       Returned (Subtract (Subtract (Number 1) (Number 2)) (Number 3))
   \<and> ParseStringToCompletion expression ''1 == 2 == 3'' =
       Returned (Equal (Equal (Number 1) (Number 2)) (Number 3))"
  unfolding getComparisonParser_def sum_parser_def product_parser_def
  by (intro conjI refl precedence_sum_product precedence_product_sum left_associative_subtract
      left_associative_equal)

lemma five_parameters_parse:
  "ParseStringToCompletion parser ''function f(a,b,c,d,e){}'' =
     Returned (Block [Function ''f'' [''a'', ''b'', ''c'', ''d'', ''e''] (Block [])])"
  by code_simp

lemma five_parameters_compile:
  "compile ''function f(a,b,c,d,e){}'' = ([], Panic ''More than 4 params is not supported'')"
  by code_simp

text \<open>
  Claim C6. \<open>Emit\<close> of a \<open>Call\<close> with more than four arguments and of a \<open>Function\<close> with more
  than four parameters panics before it prints anything. The source text
  \<^verbatim>\<open>function f(a,b,c,d,e){}\<close> parses to completion, to a \<open>Function\<close> node with five
  parameters, and the run of the compiler on it ends in the panic of \<open>Function\<close>.
\<close>

theorem arity_overflow:
  "(length arguments > 4 \<longrightarrow>
      Emit (Call callee arguments) s = ([], Inl ''More than 4 arguments are not supported''))
   \<and> (length params > 4 \<longrightarrow>
      Emit (Function name params body) s = ([], Inl ''More than 4 params is not supported''))
   \<and> ParseStringToCompletion parser ''function f(a,b,c,d,e){}'' =
       Returned (Block [Function ''f'' [''a'', ''b'', ''c'', ''d'', ''e''] (Block [])])
   \<and> compile ''function f(a,b,c,d,e){}'' = ([], Panic ''More than 4 params is not supported'')"
  by (simp add: panic_def five_parameters_parse five_parameters_compile)

theorem arity_overflow_witness:
  "Emit (Call ''f'' [Number 1, Number 2, Number 3, Number 4, Number 5]) (NewEnvironment, 0) =
     ([], Inl ''More than 4 arguments are not supported'')
   \<and> Emit (Function ''f'' [''a'', ''b'', ''c'', ''d'', ''e''] (Block [])) (NewEnvironment, 0) =
     ([], Inl ''More than 4 params is not supported'')"
proof -
  note overflow = arity_overflow [of "[Number 1, Number 2, Number 3, Number 4, Number 5]" "''f''"
      "(NewEnvironment, 0)" "[''a'', ''b'', ''c'', ''d'', ''e'']" "''f''" "Block []"]
  have five: "length [Number 1, Number 2, Number 3, Number 4, Number 5] > 4"
    "length [''a'', ''b'', ''c'', ''d'', ''e''] > 4"
    by simp_all
  from overflow [THEN conjunct1] five(1)
  have "Emit (Call ''f'' [Number 1, Number 2, Number 3, Number 4, Number 5]) (NewEnvironment, 0) =
     ([], Inl ''More than 4 arguments are not supported'')"
    by (rule mp)
  moreover from overflow [THEN conjunct2, THEN conjunct1] five(2)
  have "Emit (Function ''f'' [''a'', ''b'', ''c'', ''d'', ''e''] (Block [])) (NewEnvironment, 0) =
     ([], Inl ''More than 4 params is not supported'')"
    by (rule mp)
  ultimately show ?thesis by (rule conjI)
qed

















end
